theory Spec2Isabelle
  imports Main
begin

section \<open>JavaScript values and strings\<close>

text \<open>
  A JavaScript string is modelled as a \<open>char list\<close>; every \<open>char\<close> stands for one
  code unit in the range 0..255.  Values that flow through the profile service
  (column values of a database row, property values of an extracted fragment) are
  modelled by \<open>jsval\<close>.
\<close>

datatype jsval = JUndefined | JNull | JBool bool | JNum int | JStr string

datatype js_error = TypeError | DatabaseError

text \<open>Truthiness, as used by \<open>a && b\<close>, \<open>!a\<close> and \<open>if (a)\<close>.\<close>

fun truthy :: "jsval \<Rightarrow> bool" where
  "truthy JUndefined = False"
| "truthy JNull = False"
| "truthy (JBool b) = b"
| "truthy (JNum n) = (n \<noteq> 0)"
| "truthy (JStr s) = (s \<noteq> [])"

text \<open>White space as removed by \<open>String.prototype.trim\<close> and matched by \<open>\s\<close>
  (tab, line feed, vertical tab, form feed, carriage return, space, no-break space).\<close>

definition is_space :: "char \<Rightarrow> bool" where
  "is_space c = (of_char c \<in> {9, 10, 11, 12, 13, 32, 160 :: nat})"

definition is_digit :: "char \<Rightarrow> bool" where
  "is_digit c = (48 \<le> (of_char c :: nat) \<and> (of_char c :: nat) \<le> 57)"

definition is_upper :: "char \<Rightarrow> bool" where
  "is_upper c = (65 \<le> (of_char c :: nat) \<and> (of_char c :: nat) \<le> 90)"

definition is_lower :: "char \<Rightarrow> bool" where
  "is_lower c = (97 \<le> (of_char c :: nat) \<and> (of_char c :: nat) \<le> 122)"

definition is_alpha :: "char \<Rightarrow> bool" where
  "is_alpha c = (is_upper c \<or> is_lower c)"

text \<open>The word characters of \<open>\w\<close> and \<open>\b\<close>: \<open>[A-Za-z0-9_]\<close>.\<close>

definition is_word :: "char \<Rightarrow> bool" where
  "is_word c = (is_alpha c \<or> is_digit c \<or> c = CHR ''_'')"

text \<open>\<open>toLowerCase\<close> on one code unit: \<open>A-Z\<close>, and the Latin-1 capitals
  0xC0..0xDE without the multiplication sign 0xD7, move up by 32, which sets the bit
  of value 32.\<close>

fun plus_32 :: "char \<Rightarrow> char" where
  "plus_32 (Char b0 b1 b2 b3 b4 b5 b6 b7) = Char b0 b1 b2 b3 b4 True b6 b7"

definition is_latin1_upper :: "char \<Rightarrow> bool" where
  "is_latin1_upper c =
     (192 \<le> (of_char c :: nat) \<and> (of_char c :: nat) \<le> 222 \<and> (of_char c :: nat) \<noteq> 215)"

definition lower_char :: "char \<Rightarrow> char" where
  "lower_char c = (if is_upper c \<or> is_latin1_upper c then plus_32 c else c)"

definition toLowerCase :: "string \<Rightarrow> string" where
  "toLowerCase s = map lower_char s"

definition trim :: "string \<Rightarrow> string" where
  "trim s = rev (dropWhile is_space (rev (dropWhile is_space s)))"

fun starts_with :: "string \<Rightarrow> string \<Rightarrow> bool" where
  "starts_with s [] = True"
| "starts_with [] (k # ks) = False"
| "starts_with (c # cs) (k # ks) = (c = k \<and> starts_with cs ks)"

text \<open>\<open>s.includes(k)\<close>: \<open>k\<close> occurs in \<open>s\<close> as a contiguous substring.\<close>

fun js_includes :: "string \<Rightarrow> string \<Rightarrow> bool" where
  "js_includes [] k = (k = [])"
| "js_includes (c # cs) k = (starts_with (c # cs) k \<or> js_includes cs k)"

text \<open>Decimal rendering of integers, for \<open>Number.prototype.toString\<close>.\<close>

function show_nat :: "nat \<Rightarrow> string" where
  "show_nat n =
     (if n < 10 then [char_of (48 + n)]
      else show_nat (n div 10) @ [char_of (48 + n mod 10)])"
  by pat_completeness auto
termination
  by (relation "measure id") auto

definition show_int :: "int \<Rightarrow> string" where
  "show_int i = (if i < 0 then CHR ''-'' # show_nat (nat (- i)) else show_nat (nat i))"

text \<open>\<open>v.toString()\<close>.  It throws on \<open>undefined\<close> and \<open>null\<close>; every call in the
  modelled code sits behind \<open>v &&\<close>, so these two cases are never reached and are
  given the empty string.\<close>

fun toString :: "jsval \<Rightarrow> string" where
  "toString (JStr s) = s"
| "toString (JNum n) = show_int n"
| "toString (JBool b) = (if b then ''true'' else ''false'')"
| "toString JUndefined = []"
| "toString JNull = []"

section \<open>The profile service\<close>

text \<open>
  A row of \<open>user_profiles\<close> maps column names to values; the table maps profile ids
  to rows.  A fragment (\<open>extractedData\<close>) is a JavaScript object: its properties in
  insertion order, as \<open>Object.keys\<close> enumerates them.
\<close>

type_synonym row = "string \<Rightarrow> jsval"
type_synonym fragment = "(string \<times> jsval) list"
type_synonym profiles = "string \<rightharpoonup> row"

text \<open>The test \<open>profile[field] && profile[field].toString().trim()\<close>.\<close>

definition field_present :: "jsval \<Rightarrow> bool" where
  "field_present v = (truthy v \<and> trim (toString v) \<noteq> [])"

definition fieldMapping :: "(string \<times> string) list" where
  "fieldMapping =
    [(''firstName'', ''first_name''),
     (''lastName'', ''last_name''),
     (''middleName'', ''middle_name''),
     (''preferredName'', ''preferred_name''),
     (''dateOfBirth'', ''date_of_birth''),
     (''age'', ''age''),
     (''gender'', ''gender''),
     (''email'', ''email_address''),
     (''streetAddress'', ''street_address''),
     (''apartmentUnit'', ''apartment_unit''),
     (''city'', ''city''),
     (''state'', ''state''),
     (''zipCode'', ''zip_code''),
     (''county'', ''county''),
     (''medicaidId'', ''medicaid_id''),
     (''medicareId'', ''medicare_id''),
     (''insuranceProvider'', ''insurance_provider''),
     (''emergencyContact1Name'', ''emergency_contact_1_name''),
     (''emergencyContact1Phone'', ''emergency_contact_1_phone''),
     (''emergencyContact1Relationship'', ''emergency_contact_1_relationship''),
     (''primaryCarePhysician'', ''primary_care_physician''),
     (''medicalConditions'', ''medical_conditions''),
     (''medications'', ''medications''),
     (''allergies'', ''allergies''),
     (''mobilityNeeds'', ''mobility_needs''),
     (''dietaryRestrictions'', ''dietary_restrictions''),
     (''preferredCaregiverGender'', ''preferred_caregiver_gender''),
     (''languagePreference'', ''language_preference''),
     (''serviceLocation'', ''service_location'')]"

text \<open>\<open>fieldMapping[key]\<close>.  \<open>fieldMapping\<close> is an object literal, so besides its own
  keys the lookup finds the members it inherits from \<open>Object.prototype\<close>; their
  printed form is not a column name.\<close>

definition objectPrototypeKeys :: "string list" where
  "objectPrototypeKeys =
     [''constructor'', ''__defineGetter__'', ''__defineSetter__'', ''hasOwnProperty'',
      ''__lookupGetter__'', ''__lookupSetter__'', ''isPrototypeOf'', ''propertyIsEnumerable'',
      ''toString'', ''valueOf'', ''__proto__'', ''toLocaleString'']"

datatype set_target = Column string | Inherited

definition fieldMapping_get :: "string \<Rightarrow> set_target option" where
  "fieldMapping_get key =
     (case map_of fieldMapping key of
        Some dbField \<Rightarrow> Some (Column dbField)
      | None \<Rightarrow> if key \<in> set objectPrototypeKeys then Some Inherited else None)"

text \<open>The loop over \<open>Object.keys(extractedData)\<close>: one \<open>target = value\<close> assignment
  for every key for which \<open>fieldMapping[key]\<close> is truthy and whose value is neither
  \<open>null\<close> nor \<open>undefined\<close>.\<close>

fun updateFields :: "fragment \<Rightarrow> (set_target \<times> jsval) list" where
  "updateFields [] = []"
| "updateFields ((key, v) # rest) =
     (case fieldMapping_get key of
        Some dbField \<Rightarrow>
          (if v \<noteq> JNull \<and> v \<noteq> JUndefined then (dbField, v) # updateFields rest
           else updateFields rest)
      | None \<Rightarrow> updateFields rest)"

fun column_values :: "(set_target \<times> jsval) list \<Rightarrow> (string \<times> jsval) list" where
  "column_values [] = []"
| "column_values ((Column c, v) # rest) = (c, v) # column_values rest"
| "column_values ((Inherited, v) # rest) = column_values rest"

definition set_columns :: "row \<Rightarrow> (string \<times> jsval) list \<Rightarrow> row" where
  "set_columns r assignments = foldl (\<lambda>r' (c, v). r'(c := v)) r assignments"

text \<open>SQL \<open>sms_conversation_count + 1\<close>; \<open>NULL + 1\<close> is \<open>NULL\<close>.\<close>

definition sql_increment :: "jsval \<Rightarrow> jsval" where
  "sql_increment v = (case v of JNum n \<Rightarrow> JNum (n + 1) | _ \<Rightarrow> JNull)"

text \<open>\<open>updateProfileData(profileId, extractedData)\<close>, with the table and the value of
  \<open>NOW()\<close> passed in; it returns \<open>result.rows[0]\<close> and the table afterwards.  An
  \<open>UPDATE\<close> whose \<open>SET\<close> list names something that is not a column is rejected by
  the database, and the rejection is thrown.  The store keeps the values it is
  given: the column types of \<open>user_profiles\<close> are not part of the sources.\<close>

definition updateProfileData ::
  "profiles \<Rightarrow> jsval \<Rightarrow> string \<Rightarrow> fragment \<Rightarrow> js_error + (row option \<times> profiles)" where
  "updateProfileData db now profileId extractedData =
     (let assignments = updateFields extractedData
      in if assignments = [] then Inr (db profileId, db)
         else if list_ex (\<lambda>(target, v). target = Inherited) assignments
         then Inl DatabaseError
         else (case db profileId of
                 None \<Rightarrow> Inr (None, db)
               | Some old \<Rightarrow>
                   (let r = (set_columns old (column_values assignments))
                          (''updated_at'' := now,
                           ''last_updated_via_sms'' := now,
                           ''sms_conversation_count'' :=
                              sql_increment (old ''sms_conversation_count''))
                    in Inr (Some r, db(profileId \<mapsto> r)))))"

text \<open>The table after a call of \<open>updateProfileData\<close>; a call that throws leaves it as
  it was.\<close>

definition merge_db :: "profiles \<Rightarrow> jsval \<Rightarrow> string \<Rightarrow> fragment \<Rightarrow> profiles" where
  "merge_db db now profileId extractedData =
     (case updateProfileData db now profileId extractedData of
        Inr (r, db') \<Rightarrow> db'
      | Inl e \<Rightarrow> db)"

definition requiredFields :: "string list" where
  "requiredFields = [''first_name'', ''last_name'', ''primary_phone'', ''zip_code'']"

definition importantFields :: "string list" where
  "importantFields =
     [''date_of_birth'', ''street_address'', ''city'', ''state'',
      ''emergency_contact_1_name'', ''emergency_contact_1_phone'']"

definition optionalFields :: "string list" where
  "optionalFields =
     [''middle_name'', ''preferred_name'', ''email_address'', ''gender'',
      ''secondary_phone'', ''apartment_unit'', ''county'', ''medicaid_id'',
      ''medicare_id'', ''primary_care_physician'']"

text \<open>One \<open>forEach\<close> of the scoring: every field adds its weight to \<open>maxScore\<close>, a
  present field adds it to \<open>score\<close> too.  The accumulator is \<open>(score, maxScore)\<close>.\<close>

fun add_scores :: "row \<Rightarrow> nat \<Rightarrow> string list \<Rightarrow> nat \<times> nat \<Rightarrow> nat \<times> nat" where
  "add_scores profile w [] acc = acc"
| "add_scores profile w (field # fields) (score, maxScore) =
     add_scores profile w fields
       (if field_present (profile field) then score + w else score, maxScore + w)"

text \<open>\<open>Math.round((score / maxScore) * 100)\<close>: the nearest integer, halves upwards.
  For the weights of the table \<open>maxScore\<close> is 440 and \<open>score\<close> a multiple of 10, the
  quotient is never within 1/22 of a half, so the floating-point evaluation and this
  exact one agree.\<close>

definition round_percent :: "nat \<Rightarrow> nat \<Rightarrow> nat" where
  "round_percent score maxScore = (200 * score + maxScore) div (2 * maxScore)"

definition completion :: "row \<Rightarrow> nat" where
  "completion profile =
     (let (score, maxScore) =
            add_scores profile 10 optionalFields
              (add_scores profile 30 importantFields
                (add_scores profile 40 requiredFields (0, 0)))
      in if maxScore > 0 then round_percent score maxScore else 0)"

definition calculateCompletionPercentage :: "profiles \<Rightarrow> string \<Rightarrow> nat \<times> profiles" where
  "calculateCompletionPercentage db profileId =
     (case db profileId of
        None \<Rightarrow> (0, db)
      | Some profile \<Rightarrow>
          (let percentage = completion profile
           in (percentage,
               db(profileId \<mapsto>
                    profile(''profile_completion_percentage'' := JNum (int percentage))))))"

text \<open>\<open>updateProfileMetrics(profileId)\<close>.  The data quality score is computed, in floating
  point, from the rows of the table \<open>profile_field_validations\<close>, which the profile
  service only reads; it is passed in.  The result is the returned summary and the
  table afterwards.\<close>

definition updateProfileMetrics ::
  "profiles \<Rightarrow> jsval \<Rightarrow> nat \<Rightarrow> string \<Rightarrow> (nat \<times> nat \<times> string) \<times> profiles" where
  "updateProfileMetrics db now dataQualityScore profileId =
     (let (completionPercentage, db1) = calculateCompletionPercentage db profileId;
          verificationStatus =
            (if completionPercentage \<ge> 80 \<and> dataQualityScore \<ge> 80 then ''verified''
             else if completionPercentage \<ge> 50 \<or> dataQualityScore \<ge> 60 then ''partial''
             else ''unverified'');
          db2 = (case db1 profileId of
                   None \<Rightarrow> db1
                 | Some profile \<Rightarrow>
                     db1(profileId \<mapsto>
                           profile(''data_quality_score'' := JNum (int dataQualityScore),
                                   ''verification_status'' := JStr verificationStatus,
                                   ''last_interaction_date'' := now)))
      in ((completionPercentage, dataQualityScore, verificationStatus), db2))"

text \<open>\<open>createOrUpdateProfileFromSMS\<close> from the point where the user and the profile have
  been found or created: \<open>profileId\<close> is \<open>profile.id\<close>.  The two \<open>UPDATE\<close> statements
  are separate queries of the pool, each with its own \<open>NOW()\<close>; the interaction log
  is another table.  The result is the returned \<open>profile\<close> and \<open>completionPercentage\<close>
  and the table afterwards; an error of \<open>updateProfileData\<close> is thrown on.\<close>

definition createOrUpdateProfileFromSMS ::
  "profiles \<Rightarrow> jsval \<Rightarrow> jsval \<Rightarrow> nat \<Rightarrow> string \<Rightarrow> fragment
     \<Rightarrow> js_error + ((row option \<times> nat) \<times> profiles)" where
  "createOrUpdateProfileFromSMS db now1 now2 dataQualityScore profileId extractedData =
     (case updateProfileData db now1 profileId extractedData of
        Inl e \<Rightarrow> Inl e
      | Inr (updatedProfile, db1) \<Rightarrow>
          (let (metrics, db2) = updateProfileMetrics db1 now2 dataQualityScore profileId;
               (completionPercentage, db3) = calculateCompletionPercentage db2 profileId
           in Inr ((updatedProfile, completionPercentage), db3)))"

record missing_item =
  field :: string
  label :: string
  priority :: string

definition missingCandidates :: "(string \<times> string) list" where
  "missingCandidates =
     [(''first_name'', ''First Name''),
      (''last_name'', ''Last Name''),
      (''date_of_birth'', ''Date of Birth''),
      (''street_address'', ''Street Address''),
      (''city'', ''City''),
      (''state'', ''State''),
      (''zip_code'', ''ZIP Code''),
      (''emergency_contact_1_name'', ''Emergency Contact Name''),
      (''emergency_contact_1_phone'', ''Emergency Contact Phone'')]"

fun collect_missing :: "row \<Rightarrow> (string \<times> string) list \<Rightarrow> missing_item list" where
  "collect_missing profile [] = []"
| "collect_missing profile ((f, l) # rest) =
     (if \<not> field_present (profile f)
      then \<lparr>field = f, label = l, priority = ''high''\<rparr> # collect_missing profile rest
      else collect_missing profile rest)"

definition getMissingProfileInfo :: "profiles \<Rightarrow> string \<Rightarrow> missing_item list" where
  "getMissingProfileInfo db profileId =
     (case db profileId of
        None \<Rightarrow> []
      | Some profile \<Rightarrow> collect_missing profile missingCandidates)"

text \<open>\<open>missing.find(m => m.field === name)\<close>, used as a condition.\<close>

definition is_missing :: "missing_item list \<Rightarrow> string \<Rightarrow> bool" where
  "is_missing missing name = (find (\<lambda>m. field m = name) missing \<noteq> None)"

definition profile_complete_msg :: string where
  "profile_complete_msg =
     ''Thank you! Your profile is complete. Is there anything you'' @ [CHR 0x27] @ ''d like to update?''"

definition thanks_msg :: string where
  "thanks_msg = ''Thank you for the information!''"

definition whats :: string where
  "whats = ''What'' @ [CHR 0x27] @ ''s ''"

text \<open>\<open>generateNextQuestions(profileId, conversationStage = 'intake')\<close>; an omitted
  stage is \<open>None\<close>.\<close>

definition generateNextQuestions :: "profiles \<Rightarrow> string \<Rightarrow> string option \<Rightarrow> string list" where
  "generateNextQuestions db profileId stage =
     (let conversationStage = (case stage of None \<Rightarrow> ''intake'' | Some s \<Rightarrow> s);
          missing = getMissingProfileInfo db profileId
      in if length missing = 0 then [profile_complete_msg]
         else
           (let questions =
              (if conversationStage = ''intake'' then
                 (if is_missing missing ''first_name'' then [whats @ ''your first name?'']
                  else if is_missing missing ''last_name'' then [whats @ ''your last name?'']
                  else if is_missing missing ''date_of_birth''
                    then [whats @ ''your date of birth? (MM/DD/YYYY)'']
                  else [])
               else if conversationStage = ''address'' then
                 (if is_missing missing ''street_address'' then [whats @ ''your street address?'']
                  else if is_missing missing ''city'' then [''What city do you live in?'']
                  else if is_missing missing ''zip_code'' then [whats @ ''your ZIP code?'']
                  else [])
               else if conversationStage = ''emergency_contact'' then
                 (if is_missing missing ''emergency_contact_1_name''
                    then [''Who should we contact in case of emergency?'']
                  else if is_missing missing ''emergency_contact_1_phone''
                    then [whats @ ''their phone number?'']
                  else [])
               else
                 (case missing of
                    [] \<Rightarrow> []
                  | next # _ \<Rightarrow>
                      [''Could you provide your '' @ toLowerCase (label next) @ ''?'']))
            in if length questions > 0 then questions else [thanks_msg]))"

section \<open>Regular expressions\<close>

text \<open>
  The regular expressions of the sources use character classes, \<open>\b\<close>, sequence,
  alternation, the greedy quantifiers \<open>?\<close>, \<open>*\<close>, \<open>+\<close>, \<open>{n}\<close>, \<open>{n,}\<close>, \<open>{n,m}\<close> and
  capture groups.  \<open>Chr P\<close> matches one character of the class \<open>P\<close>, \<open>Bnd\<close> is
  \<open>\b\<close>, \<open>Grp n r\<close> is the \<open>n\<close>-th pair of capturing parentheses; the bounded
  quantifiers are built from these below.
\<close>

datatype regex =
    Eps
  | Chr "char \<Rightarrow> bool"
  | Bnd
  | Seq regex regex
  | Alt regex regex
  | Opt regex
  | Star regex
  | Grp nat regex

text \<open>
  A state of the matcher: whether the character before the current position is a
  word character (false at the start of the input), the input still to be read, and
  the groups captured so far.
\<close>

type_synonym captures = "nat \<Rightarrow> string option"
type_synonym mstate = "bool \<times> string \<times> captures"

definition next_word :: "string \<Rightarrow> bool" where
  "next_word s = (case s of [] \<Rightarrow> False | c # _ \<Rightarrow> is_word c)"

text \<open>
  The backtracking matcher.  \<open>run r st\<close> lists the states in which a match of \<open>r\<close>
  from \<open>st\<close> can end, in the order in which backtracking tries them, so that the
  head of the list is the match JavaScript reports.  Quantifiers are greedy; an
  iteration of \<open>*\<close> that consumes nothing is abandoned, as the standard prescribes.
\<close>

function run :: "regex \<Rightarrow> mstate \<Rightarrow> mstate list" where
  "run Eps st = [st]"
| "run (Chr P) (b, s, cs) =
     (case s of [] \<Rightarrow> [] | c # s' \<Rightarrow> if P c then [(is_word c, s', cs)] else [])"
| "run Bnd (b, s, cs) = (if b \<noteq> next_word s then [(b, s, cs)] else [])"
| "run (Seq x y) st = concat (map (run y) (run x st))"
| "run (Alt x y) st = run x st @ run y st"
| "run (Opt x) st = run x st @ [st]"
| "run (Star x) (b, s, cs) =
     concat (map (\<lambda>(b', s', cs'). if length s' < length s then run (Star x) (b', s', cs') else [])
               (run x (b, s, cs)))
     @ [(b, s, cs)]"
| "run (Grp n x) (b, s, cs) =
     map (\<lambda>(b', s', cs'). (b', s', cs'(n \<mapsto> take (length s - length s') s)))
       (run x (b, s, cs))"
  by pat_completeness auto
termination
  by (relation "inv_image (less_than <*lex*> less_than) (\<lambda>(r, b, s, cs). (size r, length s))")
     auto

text \<open>
  Sequences and alternatives of several parts, literal characters, literals under
  the flag \<open>i\<close> (the patterns of the sources contain ASCII letters only), and the
  quantifiers \<open>{n}\<close> (\<open>times\<close>), \<open>{n,m}\<close> (\<open>between\<close>: \<open>n\<close> mandatory occurrences and up
  to \<open>m - n\<close> optional ones, each tried before it is skipped) and \<open>{n,}\<close>, \<open>+\<close>
  (\<open>at_least\<close>).
\<close>

definition seqs :: "regex list \<Rightarrow> regex" where
  "seqs rs = foldr Seq rs Eps"

fun alts :: "regex list \<Rightarrow> regex" where
  "alts [] = Eps"
| "alts [r] = r"
| "alts (r # rs) = Alt r (alts rs)"

definition lit :: "char \<Rightarrow> regex" where
  "lit c = Chr (\<lambda>x. x = c)"

definition ilit :: "char \<Rightarrow> regex" where
  "ilit c = Chr (\<lambda>x. lower_char x = lower_char c)"

definition str :: "string \<Rightarrow> regex" where
  "str s = seqs (map lit s)"

definition istr :: "string \<Rightarrow> regex" where
  "istr s = seqs (map ilit s)"

fun times :: "nat \<Rightarrow> regex \<Rightarrow> regex" where
  "times 0 r = Eps"
| "times (Suc n) r = Seq r (times n r)"

fun upto :: "nat \<Rightarrow> regex \<Rightarrow> regex" where
  "upto 0 r = Eps"
| "upto (Suc k) r = Opt (Seq r (upto k r))"

definition between :: "nat \<Rightarrow> nat \<Rightarrow> regex \<Rightarrow> regex" where
  "between n m r = Seq (times n r) (upto (m - n) r)"

definition at_least :: "nat \<Rightarrow> regex \<Rightarrow> regex" where
  "at_least n r = Seq (times n r) (Star r)"

text \<open>
  \<open>\d\<close> and \<open>\s\<close>.
\<close>

definition digit :: regex where "digit = Chr is_digit"
definition space :: regex where "space = Chr is_space"

text \<open>
  \<open>$n\<close> and \<open>match[n]\<close>: the text of a group, empty when the group took no part.
\<close>

definition no_captures :: captures where
  "no_captures = (\<lambda>n. None)"

definition capture :: "captures \<Rightarrow> nat \<Rightarrow> string" where
  "capture cs n = (case cs n of None \<Rightarrow> [] | Some w \<Rightarrow> w)"

text \<open>
  \<open>s.match(r)\<close> for a pattern without the flag \<open>g\<close>: the first position, from the
  left, at which the pattern matches, with the matched text and the groups.
\<close>

fun search :: "regex \<Rightarrow> bool \<Rightarrow> string \<Rightarrow> (string \<times> captures) option" where
  "search r b [] =
     (case run r (b, [], no_captures) of [] \<Rightarrow> None | (b', s', cs) # _ \<Rightarrow> Some ([], cs))"
| "search r b (c # s) =
     (case run r (b, c # s, no_captures) of
        [] \<Rightarrow> search r (is_word c) s
      | (b', s', cs) # _ \<Rightarrow> Some (take (length (c # s) - length s') (c # s), cs))"

definition js_match :: "string \<Rightarrow> regex \<Rightarrow> (string \<times> captures) option" where
  "js_match s r = search r False s"

section \<open>Replacing and collecting matches; the PHI guard\<close>

text \<open>
  \<open>s.replace(r, ...)\<close> for a pattern with the flag \<open>g\<close>: the matches are found from
  left to right, each search starting where the previous match ended (one
  character further after an empty match); \<open>f\<close> gives the replacement from the
  matched text and its groups.
\<close>

function replace_all :: "regex \<Rightarrow> (string \<Rightarrow> captures \<Rightarrow> string) \<Rightarrow> bool \<Rightarrow> string \<Rightarrow> string" where
  "replace_all r f b [] =
     (case run r (b, [], no_captures) of [] \<Rightarrow> [] | (b', s', cs) # _ \<Rightarrow> f [] cs)"
| "replace_all r f b (c # s) =
     (case run r (b, c # s, no_captures) of
        [] \<Rightarrow> c # replace_all r f (is_word c) s
      | (b', s', cs) # _ \<Rightarrow>
          if length s' < length (c # s)
          then f (take (length (c # s) - length s') (c # s)) cs @ replace_all r f b' s'
          else f [] cs @ c # replace_all r f (is_word c) s)"
  by pat_completeness auto
termination
  by (relation "measure (\<lambda>(r, f, b, s). length s)") auto

text \<open>
  \<open>s.match(r)\<close> for a pattern with the flag \<open>g\<close>: the matched texts, found in the same
  way; JavaScript returns \<open>null\<close> when there is none.
\<close>

function match_all :: "regex \<Rightarrow> bool \<Rightarrow> string \<Rightarrow> string list" where
  "match_all r b [] =
     (case run r (b, [], no_captures) of [] \<Rightarrow> [] | (b', s', cs) # _ \<Rightarrow> [] # [])"
| "match_all r b (c # s) =
     (case run r (b, c # s, no_captures) of
        [] \<Rightarrow> match_all r (is_word c) s
      | (b', s', cs) # _ \<Rightarrow>
          if length s' < length (c # s)
          then take (length (c # s) - length s') (c # s) # match_all r b' s'
          else [] # match_all r (is_word c) s)"
  by pat_completeness auto
termination
  by (relation "measure (\<lambda>(r, b, s). length s)") auto

definition js_replace :: "string \<Rightarrow> regex \<Rightarrow> (string \<Rightarrow> captures \<Rightarrow> string) \<Rightarrow> string" where
  "js_replace s r f = replace_all r f False s"

definition js_match_all :: "string \<Rightarrow> regex \<Rightarrow> string list option" where
  "js_match_all s r = (case match_all r False s of [] \<Rightarrow> None | ms \<Rightarrow> Some ms)"

text \<open>
  \<open>phiPatterns\<close>, in the order of the source:
  \<^item> \<open>/\b\d{3}-\d{2}-\d{4}\b/g\<close> (SSN),
  \<^item> \<open>/\b\d{4}\s?\d{4}\s?\d{4}\s?\d{4}\b/g\<close> (credit card),
  \<^item> \<open>/\b[A-Za-z0-9._%+-]+@[A-Za-z0-9.-]+\.[A-Z|a-z]{2,}\b/g\<close> (e-mail; the bar
    inside the last class is a member of the class),
  \<^item> \<open>/\b\d{10,11}\b/g\<close> (phone numbers),
  \<^item> \<open>/\b\d{1,2}\/\d{1,2}\/\d{2,4}\b/g\<close> (dates).
\<close>

definition ssn_re :: regex where
  "ssn_re = seqs [Bnd, times 3 digit, lit CHR ''-'', times 2 digit, lit CHR ''-'', times 4 digit, Bnd]"

definition card_re :: regex where
  "card_re = seqs [Bnd, times 4 digit, Opt space, times 4 digit, Opt space, times 4 digit,
                   Opt space, times 4 digit, Bnd]"

definition email_re :: regex where
  "email_re =
     seqs [Bnd,
           at_least 1 (Chr (\<lambda>c. is_alpha c \<or> is_digit c \<or> c \<in> set ''._%+-'')),
           lit CHR ''@'',
           at_least 1 (Chr (\<lambda>c. is_alpha c \<or> is_digit c \<or> c \<in> set ''.-'')),
           lit CHR ''.'',
           at_least 2 (Chr (\<lambda>c. is_alpha c \<or> c = CHR ''|'')),
           Bnd]"

definition phone_re :: regex where
  "phone_re = seqs [Bnd, between 10 11 digit, Bnd]"

definition date_re :: regex where
  "date_re = seqs [Bnd, between 1 2 digit, lit CHR ''/'', between 1 2 digit, lit CHR ''/'',
                   between 2 4 digit, Bnd]"

definition phiPatterns :: "regex list" where
  "phiPatterns = [ssn_re, card_re, email_re, phone_re, date_re]"

text \<open>
  \<open>detectPHI\<close>: one entry, with its type name, for every pattern that matches
  somewhere.
\<close>

record detection =
  type :: string
  matches :: "string list"

definition detectPHI :: "string \<Rightarrow> detection list" where
  "detectPHI text =
     concat (map (\<lambda>(pattern, name).
                    case js_match_all text pattern of
                      None \<Rightarrow> []
                    | Some ms \<Rightarrow> [\<lparr>type = name, matches = ms\<rparr>])
              (zip phiPatterns [''ssn'', ''credit_card'', ''email'', ''phone'', ''date'']))"

text \<open>
  The three patterns of the mode \<open>mask_partial\<close>:
  \<^item> \<open>/\b(\d{3})-(\d{2})-(\d{4})\b/g\<close>, replaced by \<open>XXX-XX-$3\<close>,
  \<^item> \<open>/\b(\d{3})-?(\d{3})-?(\d{4})\b/g\<close>, replaced by \<open>XXX-XXX-$3\<close>,
  \<^item> \<open>/\b([A-Za-z])[A-Za-z0-9._%+-]*@([A-Za-z0-9.-]+\.[A-Z|a-z]{2,})\b/g\<close>,
    replaced by \<open>$1***@$2\<close>.
\<close>

definition mask_ssn_re :: regex where
  "mask_ssn_re = seqs [Bnd, Grp 1 (times 3 digit), lit CHR ''-'', Grp 2 (times 2 digit),
                       lit CHR ''-'', Grp 3 (times 4 digit), Bnd]"

definition mask_phone_re :: regex where
  "mask_phone_re = seqs [Bnd, Grp 1 (times 3 digit), Opt (lit CHR ''-''), Grp 2 (times 3 digit),
                         Opt (lit CHR ''-''), Grp 3 (times 4 digit), Bnd]"

definition mask_email_re :: regex where
  "mask_email_re =
     seqs [Bnd, Grp 1 (Chr is_alpha),
           Star (Chr (\<lambda>c. is_alpha c \<or> is_digit c \<or> c \<in> set ''._%+-'')),
           lit CHR ''@'',
           Grp 2 (seqs [at_least 1 (Chr (\<lambda>c. is_alpha c \<or> is_digit c \<or> c \<in> set ''.-'')),
                        lit CHR ''.'',
                        at_least 2 (Chr (\<lambda>c. is_alpha c \<or> c = CHR ''|''))]),
           Bnd]"

text \<open>
  \<open>redactPHI(text, mode = 'mask_partial')\<close>; an omitted mode is \<open>None\<close>.
\<close>

definition redactPHI :: "string \<Rightarrow> string option \<Rightarrow> string" where
  "redactPHI text mode_arg =
     (let mode = (case mode_arg of None \<Rightarrow> ''mask_partial'' | Some m \<Rightarrow> m)
      in if mode = ''mask_partial'' then
           (let redacted1 = js_replace text mask_ssn_re (\<lambda>w cs. ''XXX-XX-'' @ capture cs 3);
                redacted2 = js_replace redacted1 mask_phone_re (\<lambda>w cs. ''XXX-XXX-'' @ capture cs 3)
            in js_replace redacted2 mask_email_re
                 (\<lambda>w cs. capture cs 1 @ ''***@'' @ capture cs 2))
         else if mode = ''full_redact'' then
           foldl (\<lambda>redacted pattern. js_replace redacted pattern (\<lambda>w cs. ''[REDACTED]''))
             text phiPatterns
         else text)"

section \<open>Content classification and field extraction\<close>

text \<open>
  The lists that \<open>classifyContent\<close> reads from the policy object: the emergency
  keywords, the strict and soft blocks, and the values of the three groups of
  allowed domains.  The policy file itself is not part of the sources, so the
  policy is a parameter.
\<close>

record policy =
  emergency_keywords :: "string list"
  strict_blocks :: "string list"
  soft_blocks :: "string list"
  primary_services :: "string list"
  administrative :: "string list"
  informational :: "string list"

record classification =
  category :: string
  action :: string
  priority :: string

text \<open>
  \<open>phrases.some(phrase => lowerMessage.includes(phrase.toLowerCase()))\<close>.
\<close>

definition some_included :: "string \<Rightarrow> string list \<Rightarrow> bool" where
  "some_included lowerMessage phrases =
     list_ex (\<lambda>phrase. js_includes lowerMessage (toLowerCase phrase)) phrases"

text \<open>
  \<open>classifyContent(message)\<close>.  \<open>message.toLowerCase()\<close> throws a \<open>TypeError\<close> when the
  message is not a string.
\<close>

definition classifyContent :: "policy \<Rightarrow> jsval \<Rightarrow> js_error + classification" where
  "classifyContent mcpPolicy message =
     (case message of
        JStr m \<Rightarrow>
          (let lowerMessage = toLowerCase m
           in if some_included lowerMessage (emergency_keywords mcpPolicy) then
                Inr \<lparr>category = ''emergency'', action = ''immediate_redirect'',
                     priority = ''critical''\<rparr>
              else if some_included lowerMessage (strict_blocks mcpPolicy) then
                Inr \<lparr>category = ''blocked'', action = ''strict_block'', priority = ''high''\<rparr>
              else if some_included lowerMessage (soft_blocks mcpPolicy) then
                Inr \<lparr>category = ''soft_block'', action = ''brief_redirect'',
                     priority = ''medium''\<rparr>
              else
                (let allowedDomains = primary_services mcpPolicy @ administrative mcpPolicy
                                        @ informational mcpPolicy;
                     isAllowed = some_included lowerMessage allowedDomains
                 in Inr \<lparr>category = (if isAllowed then ''allowed'' else ''unknown''),
                         action = (if isAllowed then ''process'' else ''brief_redirect''),
                         priority = ''low''\<rparr>))
      | _ \<Rightarrow> Inl TypeError)"

text \<open>\<open>s.split(' ')\<close>: the pieces between single occurrences of the separator.\<close>

fun split_on :: "char \<Rightarrow> string \<Rightarrow> string list" where
  "split_on d [] = [] # []"
| "split_on d (c # s) =
     (if c = d then [] # split_on d s
      else (case split_on d s of p # ps \<Rightarrow> (c # p) # ps | [] \<Rightarrow> [c] # []))"

fun join :: "string \<Rightarrow> string list \<Rightarrow> string" where
  "join d [] = []"
| "join d [p] = p"
| "join d (p # ps) = p @ d @ join d ps"

text \<open>\<open>parseInt\<close> on a string of decimal digits.\<close>

definition digit_value :: "char \<Rightarrow> int" where
  "digit_value c = int (of_char c) - 48"

definition parseInt :: "string \<Rightarrow> int" where
  "parseInt s = foldl (\<lambda>n c. 10 * n + digit_value c) 0 s"

text \<open>
  The patterns of \<open>extractInformationFromSMS\<close>:
  \<^item> names: \<open>/my name is ([a-zA-Z\s]+)/i\<close>, \<open>/i'm ([a-zA-Z\s]+)/i\<close>,
    \<open>/i am ([a-zA-Z\s]+)/i\<close>,
  \<^item> ZIP code: \<open>/\b(\d{5})\b/\<close>,
  \<^item> phone: \<open>/\b(\d{3}[-.]?\d{3}[-.]?\d{4})\b/\<close>,
  \<^item> Medicaid id: \<open>/medicaid\s*(?:id|number)?\s*:?\s*([a-zA-Z0-9]+)/i\<close>,
  \<^item> age: \<open>/\b(?:i am|i'm)\s*(\d{1,3})\s*(?:years old|yo)\b/i\<close>,
  \<^item> address: \<open>/\b(\d+\s+[a-zA-Z0-9\s]+(?:street|st|avenue|ave|road|rd|drive|dr|lane|ln|way|blvd|boulevard))\b/i\<close>.
\<close>

definition name_chars :: regex where
  "name_chars = at_least 1 (Chr (\<lambda>c. is_alpha c \<or> is_space c))"

definition namePatterns :: "regex list" where
  "namePatterns =
     [seqs [istr ''my name is '', Grp 1 name_chars],
      seqs [istr (''i'' @ [CHR 0x27] @ ''m ''), Grp 1 name_chars],
      seqs [istr ''i am '', Grp 1 name_chars]]"

definition zip_pattern :: regex where
  "zip_pattern = seqs [Bnd, Grp 1 (times 5 digit), Bnd]"

definition phone_pattern :: regex where
  "phone_pattern =
     seqs [Bnd,
           Grp 1 (seqs [times 3 digit, Opt (Chr (\<lambda>c. c \<in> set ''-.'')), times 3 digit,
                        Opt (Chr (\<lambda>c. c \<in> set ''-.'')), times 4 digit]),
           Bnd]"

definition medicaid_pattern :: regex where
  "medicaid_pattern =
     seqs [istr ''medicaid'', Star space, Opt (alts [istr ''id'', istr ''number'']), Star space,
           Opt (lit CHR '':''), Star space,
           Grp 1 (at_least 1 (Chr (\<lambda>c. is_alpha c \<or> is_digit c)))]"

definition age_pattern :: regex where
  "age_pattern =
     seqs [Bnd, alts [istr ''i am'', istr (''i'' @ [CHR 0x27] @ ''m'')], Star space,
           Grp 1 (between 1 3 digit), Star space,
           alts [istr ''years old'', istr ''yo''], Bnd]"

definition address_pattern :: regex where
  "address_pattern =
     seqs [Bnd,
           Grp 1 (seqs [at_least 1 digit, at_least 1 space,
                        at_least 1 (Chr (\<lambda>c. is_alpha c \<or> is_digit c \<or> is_space c)),
                        alts (map istr [''street'', ''st'', ''avenue'', ''ave'', ''road'', ''rd'',
                                        ''drive'', ''dr'', ''lane'', ''ln'', ''way'', ''blvd'',
                                        ''boulevard''])]),
           Bnd]"

text \<open>
  What the first matching name pattern stores: the trimmed text of the group, split
  at single spaces.
\<close>

definition name_fields :: "string \<Rightarrow> fragment" where
  "name_fields matched =
     (let fullName = trim matched;
          nameParts = split_on CHR '' '' fullName
      in if length nameParts \<ge> 2 then
           [(''firstName'', JStr (hd nameParts)), (''lastName'', JStr (last nameParts))]
           @ (if length nameParts > 2
              then [(''middleName'', JStr (join '' '' (butlast (tl nameParts))))]
              else [])
         else [(''firstName'', JStr fullName)])"

fun extract_name :: "string \<Rightarrow> regex list \<Rightarrow> fragment" where
  "extract_name message [] = []"
| "extract_name message (pattern # patterns) =
     (case js_match message pattern of
        Some (m, cs) \<Rightarrow> name_fields (capture cs 1)
      | None \<Rightarrow> extract_name message patterns)"

text \<open>
  \<open>const m = message.match(pattern); if (m) extractedData[key] = conv(m[1])\<close>.
\<close>

definition extract_with ::
  "string \<Rightarrow> regex \<Rightarrow> string \<Rightarrow> (string \<Rightarrow> jsval) \<Rightarrow> fragment" where
  "extract_with message pattern key conv =
     (case js_match message pattern of
        Some (m, cs) \<Rightarrow> [(key, conv (capture cs 1))]
      | None \<Rightarrow> [])"

text \<open>
  The fields in the order in which the source assigns them; the phone number is
  stored after \<open>replace(/[-\.]/g, '')\<close>.
\<close>

definition extract_fields :: "string \<Rightarrow> fragment" where
  "extract_fields message =
     extract_name message namePatterns
     @ extract_with message zip_pattern ''zipCode'' JStr
     @ extract_with message phone_pattern ''phoneNumber''
         (\<lambda>m. JStr (js_replace m (Chr (\<lambda>c. c \<in> set ''-.'')) (\<lambda>w cs. [])))
     @ extract_with message medicaid_pattern ''medicaidId'' JStr
     @ extract_with message age_pattern ''age'' (\<lambda>m. JNum (parseInt m))
     @ extract_with message address_pattern ''streetAddress'' JStr"

text \<open>The body of the \<open>try\<close> block: \<open>message.toLowerCase()\<close> throws a \<open>TypeError\<close>
  unless the message is a string.\<close>

definition extract_try :: "jsval \<Rightarrow> js_error + fragment" where
  "extract_try message =
     (case message of JStr m \<Rightarrow> Inr (extract_fields m) | _ \<Rightarrow> Inl TypeError)"

text \<open>
  \<open>extractInformationFromSMS(message, logger)\<close>: the \<open>catch\<close> block returns the empty
  object.
\<close>

definition extractInformationFromSMS :: "jsval \<Rightarrow> fragment" where
  "extractInformationFromSMS message =
     (case extract_try message of Inr extractedData \<Rightarrow> extractedData | Inl error \<Rightarrow> [])"

text \<open>
  \<open>extractedData.key\<close>.
\<close>

definition property :: "fragment \<Rightarrow> string \<Rightarrow> jsval" where
  "property obj key = (case map_of obj key of Some v \<Rightarrow> v | None \<Rightarrow> JUndefined)"

definition determineConversationStage :: "string \<Rightarrow> fragment \<Rightarrow> string" where
  "determineConversationStage message extractedData =
     (let lowerMessage = toLowerCase message
      in if js_includes lowerMessage ''address'' \<or> truthy (property extractedData ''streetAddress'')
            \<or> truthy (property extractedData ''zipCode'')
         then ''address''
         else if js_includes lowerMessage ''emergency'' \<or> js_includes lowerMessage ''contact''
         then ''emergency_contact''
         else if js_includes lowerMessage ''medical'' \<or> js_includes lowerMessage ''condition''
                 \<or> js_includes lowerMessage ''medication''
         then ''medical''
         else if truthy (property extractedData ''firstName'') \<or> truthy (property extractedData ''lastName'')
                 \<or> truthy (property extractedData ''medicaidId'')
         then ''intake''
         else ''general'')"

section \<open>Specification vocabulary\<close>

definition maria_msg :: string where
  "maria_msg = ''My name is Maria Lopez, I'' @ [CHR 0x27] @ ''m 34 years old, zip 89101''"

definition last_word :: "bool \<Rightarrow> string \<Rightarrow> bool" where
  "last_word b w = (if w = [] then b else is_word (last w))"

definition first_word :: "string \<Rightarrow> bool \<Rightarrow> bool" where
  "first_word w e = (case w of [] \<Rightarrow> e | c # _ \<Rightarrow> is_word c)"

inductive accepts :: "regex \<Rightarrow> bool \<Rightarrow> string \<Rightarrow> bool \<Rightarrow> bool" where
  a_Eps: "accepts Eps b [] e"
| a_Chr: "P c \<Longrightarrow> accepts (Chr P) b [c] e"
| a_Bnd: "b \<noteq> e \<Longrightarrow> accepts Bnd b [] e"
| a_Seq: "accepts x b u (first_word v e) \<Longrightarrow> accepts y (last_word b u) v e
            \<Longrightarrow> accepts (Seq x y) b (u @ v) e"
| a_AltL: "accepts x b w e \<Longrightarrow> accepts (Alt x y) b w e"
| a_AltR: "accepts y b w e \<Longrightarrow> accepts (Alt x y) b w e"
| a_OptN: "accepts (Opt x) b [] e"
| a_OptS: "accepts x b w e \<Longrightarrow> accepts (Opt x) b w e"
| a_StarN: "accepts (Star x) b [] e"
| a_StarS: "u \<noteq> [] \<Longrightarrow> accepts x b u (first_word v e) \<Longrightarrow> accepts (Star x) (last_word b u) v e
            \<Longrightarrow> accepts (Star x) b (u @ v) e"
| a_Grp: "accepts x b w e \<Longrightarrow> accepts (Grp n x) b w e"

fun any_match :: "regex \<Rightarrow> bool \<Rightarrow> string \<Rightarrow> bool" where
  "any_match r b [] = (run r (b, [], no_captures) \<noteq> [])"
| "any_match r b (c # s) = (run r (b, c # s, no_captures) \<noteq> [] \<or> any_match r (is_word c) s)"

fun alphabet :: "regex \<Rightarrow> char set" where
  "alphabet Eps = {}"
| "alphabet (Chr P) = Collect P"
| "alphabet Bnd = {}"
| "alphabet (Seq x y) = alphabet x \<union> alphabet y"
| "alphabet (Alt x y) = alphabet x \<union> alphabet y"
| "alphabet (Opt x) = alphabet x"
| "alphabet (Star x) = alphabet x"
| "alphabet (Grp n x) = alphabet x"

fun min_len :: "regex \<Rightarrow> nat" where
  "min_len Eps = 0"
| "min_len (Chr P) = 1"
| "min_len Bnd = 0"
| "min_len (Seq x y) = min_len x + min_len y"
| "min_len (Alt x y) = min (min_len x) (min_len y)"
| "min_len (Opt x) = 0"
| "min_len (Star x) = 0"
| "min_len (Grp n x) = min_len x"

definition bounded_pattern :: "regex \<Rightarrow> bool" where
  "bounded_pattern r =
     (\<forall>b w e. accepts r b w e \<longrightarrow>
        w \<noteq> [] \<and> b \<noteq> first_word w e \<and> last_word b w \<noteq> e \<and> CHR ''['' \<notin> set w)"

definition skips_token :: "regex \<Rightarrow> bool" where
  "skips_token r = (\<forall>b x. any_match r b (''[REDACTED]'' @ x) \<longrightarrow> any_match r False x)"

text \<open>What a replacement does to the text, character by character: \<open>Keep c\<close> copies the
  character \<open>c\<close>, \<open>Subst old new\<close> puts \<open>new\<close> in the place of \<open>old\<close>.\<close>

datatype piece = Keep char | Subst string string

fun old_text :: "piece list \<Rightarrow> string" where
  "old_text [] = []"
| "old_text (Keep c # ps) = c # old_text ps"
| "old_text (Subst old new # ps) = old @ old_text ps"

fun new_text :: "piece list \<Rightarrow> string" where
  "new_text [] = []"
| "new_text (Keep c # ps) = c # new_text ps"
| "new_text (Subst old new # ps) = new @ new_text ps"









definition all_present :: "row \<Rightarrow> string list \<Rightarrow> bool" where
  "all_present profile fs = list_all (\<lambda>f. field_present (profile f)) fs"

definition blank_row :: row where
  "blank_row = (\<lambda>c. JNull)"

definition nine_row :: row where
  "nine_row = blank_row
     (''first_name'' := JStr ''x'', ''last_name'' := JStr ''x'',
      ''date_of_birth'' := JStr ''x'', ''street_address'' := JStr ''x'',
      ''city'' := JStr ''x'', ''state'' := JStr ''x'', ''zip_code'' := JStr ''x'',
      ''emergency_contact_1_name'' := JStr ''x'',
      ''emergency_contact_1_phone'' := JStr ''x'')"

definition stage_questions :: "string \<Rightarrow> (string \<times> string) list" where
  "stage_questions stage =
     (if stage = ''intake'' then
        [(''first_name'', whats @ ''your first name?''),
         (''last_name'', whats @ ''your last name?''),
         (''date_of_birth'', whats @ ''your date of birth? (MM/DD/YYYY)'')]
      else if stage = ''address'' then
        [(''street_address'', whats @ ''your street address?''),
         (''city'', ''What city do you live in?''),
         (''zip_code'', whats @ ''your ZIP code?'')]
      else if stage = ''emergency_contact'' then
        [(''emergency_contact_1_name'', ''Who should we contact in case of emergency?''),
         (''emergency_contact_1_phone'', whats @ ''their phone number?'')]
      else [])"

definition first_name_missing_row :: row where
  "first_name_missing_row = nine_row (''first_name'' := JNull)"

definition nonblank_fragment :: "fragment \<Rightarrow> bool" where
  "nonblank_fragment f = list_all (\<lambda>(k, v). field_present v) f"

fun merge_trace :: "profiles \<Rightarrow> string \<Rightarrow> (jsval \<times> fragment) list \<Rightarrow> profiles list" where
  "merge_trace db pid [] = [db]"
| "merge_trace db pid ((now, f) # ms) =
     db # merge_trace (merge_db db now pid f) pid ms"

definition meta_columns :: "string list" where
  "meta_columns = [''updated_at'', ''last_updated_via_sms'', ''sms_conversation_count'']"

definition merge_ok :: "fragment \<Rightarrow> bool" where
  "merge_ok f = (\<not> list_ex (\<lambda>(target, v). target = Inherited) (updateFields f))"

definition new_row :: row where
  "new_row = blank_row (''sms_conversation_count'' := JNum 0)"

definition ann_lee :: "(jsval \<times> fragment) list" where
  "ann_lee = [(JStr ''t1'', [(''firstName'', JStr ''Ann'')]),
              (JStr ''t2'', [(''lastName'', JStr ''Lee'')])]"

text \<open>The value a fragment assigns to a column.\<close>

definition written :: "fragment \<Rightarrow> string \<Rightarrow> jsval option" where
  "written f c =
     (case map_of (map prod.swap fieldMapping) c of
        None \<Rightarrow> None
      | Some key \<Rightarrow>
          (case map_of f key of
             None \<Rightarrow> None
           | Some v \<Rightarrow> if v \<noteq> JNull \<and> v \<noteq> JUndefined then Some v else None))"

text \<open>A fragment with a value under a name that \<open>fieldMapping\<close> only inherits from
  \<open>Object.prototype\<close>.\<close>

definition inherited_key :: "fragment \<Rightarrow> bool" where
  "inherited_key f =
     list_ex (\<lambda>(key, v). key \<in> set objectPrototypeKeys \<and> v \<noteq> JNull \<and> v \<noteq> JUndefined) f"

definition demo_policy :: policy where
  "demo_policy =
     \<lparr>emergency_keywords = [''911'', ''Chest Pain''],
      strict_blocks = [''ignore previous instructions''],
      soft_blocks = [''weather''],
      primary_services = [''home care''],
      administrative = [''billing''],
      informational = [''eligibility'']\<rparr>"

definition all_phrases :: "policy \<Rightarrow> string list" where
  "all_phrases p =
     emergency_keywords p @ strict_blocks p @ soft_blocks p
     @ primary_services p @ administrative p @ informational p"

text \<open>The entries of a fragment that \<open>updateProfileData\<close> is meant to store: a key of
  \<open>fieldMapping\<close> with a value other than \<open>null\<close> and \<open>undefined\<close>.\<close>

definition recognised :: "fragment \<Rightarrow> fragment" where
  "recognised f =
     filter (\<lambda>(key, v). map_of fieldMapping key \<noteq> None \<and> v \<noteq> JNull \<and> v \<noteq> JUndefined) f"

text \<open>The columns that a merge sets or recomputes besides the columns of the fragment.\<close>

definition derived_columns :: "string list" where
  "derived_columns =
     [''updated_at'', ''last_updated_via_sms'', ''sms_conversation_count'',
      ''profile_completion_percentage'', ''data_quality_score'', ''verification_status'',
      ''last_interaction_date'']"

text \<open>The profile that \<open>createProfile\<close> makes for a phone number, with an interaction
  count of 0.\<close>

definition created_row :: "string \<Rightarrow> row" where
  "created_row phone = new_row(''primary_phone'' := JStr phone)"

section \<open>The matcher and its declarative reading\<close>

lemmas run_Star = run.simps(7)

declare run.simps(7) [simp del]

lemma in_run_Star:
  "st' \<in> set (run (Star x) (b, s, cs)) \<longleftrightarrow>
     st' = (b, s, cs) \<or>
     (\<exists>b1 s1 cs1. (b1, s1, cs1) \<in> set (run x (b, s, cs)) \<and> length s1 < length s
        \<and> st' \<in> set (run (Star x) (b1, s1, cs1)))"
  by (subst run_Star) (auto split: if_splits)

lemma last_word_Nil [simp]: "last_word b [] = b"
  by (simp add: last_word_def)

lemma last_word_append [simp]: "last_word (last_word b u) v = last_word b (u @ v)"
  by (simp add: last_word_def)

lemma last_word_single [simp]: "last_word b [c] = is_word c"
  by (simp add: last_word_def)

lemma first_word_Nil [simp]: "first_word [] e = e"
  by (simp add: first_word_def)

lemma first_word_Cons [simp]: "first_word (c # w) e = is_word c"
  by (simp add: first_word_def)

lemma next_word_append: "next_word (v @ s) = first_word v (next_word s)"
  by (cases v) (simp_all add: next_word_def first_word_def)

lemma next_word_Cons [simp]: "next_word (c # s) = is_word c"
  by (simp add: next_word_def)

lemma run_sound:
  "(b', s', cs') \<in> set (run r (b, s, cs)) \<Longrightarrow>
     \<exists>w. s = w @ s' \<and> b' = last_word b w \<and> accepts r b w (next_word s')"
proof (induction r "(b, s, cs)" arbitrary: b s cs b' s' cs' rule: run.induct)
  case 1
  then show ?case by (auto intro: a_Eps)
next
  case (2 P b s cs)
  then show ?case
    by (cases s) (auto split: if_splits intro: a_Chr)
next
  case (3 b s cs)
  then show ?case by (auto split: if_splits intro: a_Bnd)
next
  case (4 x y b s cs)
  from "4.prems" obtain b1 s1 cs1 where
      m: "(b1, s1, cs1) \<in> set (run x (b, s, cs))" and
      r: "(b', s', cs') \<in> set (run y (b1, s1, cs1))"
    by auto
  from "4.hyps"(1) [OF m] obtain u where
      u: "s = u @ s1" "b1 = last_word b u" "accepts x b u (next_word s1)"
    by blast
  from "4.hyps"(2) [OF m r] obtain v where
      v: "s1 = v @ s'" "b' = last_word b1 v" "accepts y b1 v (next_word s')"
    by blast
  from u v have "accepts (Seq x y) b (u @ v) (next_word s')"
    by (auto intro!: a_Seq simp: next_word_append)
  with u v show ?case by auto
next
  case (5 x y b s cs)
  from "5.prems" consider "(b', s', cs') \<in> set (run x (b, s, cs))"
    | "(b', s', cs') \<in> set (run y (b, s, cs))" by auto
  then show ?case
  proof cases
    case 1
    from "5.hyps"(1) [OF 1] show ?thesis by (blast intro: a_AltL)
  next
    case 2
    from "5.hyps"(2) [OF 2] show ?thesis by (blast intro: a_AltR)
  qed
next
  case (6 x b s cs)
  from "6.prems" consider "(b', s', cs') \<in> set (run x (b, s, cs))"
    | "(b', s', cs') = (b, s, cs)" by auto
  then show ?case
  proof cases
    case 1
    from "6.hyps" [OF 1] show ?thesis by (blast intro: a_OptS)
  next
    case 2
    then show ?thesis by (auto intro: a_OptN)
  qed
next
  case (7 x b s cs)
  show ?case
  proof (cases "(b', s', cs') = (b, s, cs)")
    case True
    then show ?thesis by (auto intro: a_StarN)
  next
    case False
    with "7.prems" obtain b1 s1 cs1 where
        m: "(b1, s1, cs1) \<in> set (run x (b, s, cs))" and
        l: "length s1 < length s" and
        r: "(b', s', cs') \<in> set (run (Star x) (b1, s1, cs1))"
      by (auto simp: in_run_Star [of _ x b s cs])
    from "7.hyps"(1) [OF m] obtain u where
        u: "s = u @ s1" "b1 = last_word b u" "accepts x b u (next_word s1)"
      by blast
    from "7.hyps"(2) [OF m refl refl l r] obtain v where
        v: "s1 = v @ s'" "b' = last_word b1 v" "accepts (Star x) b1 v (next_word s')"
      by blast
    from u l have "u \<noteq> []" by auto
    with u v have "accepts (Star x) b (u @ v) (next_word s')"
      by (auto intro!: a_StarS simp: next_word_append)
    with u v show ?thesis by auto
  qed
next
  case (8 n x b s cs)
  from "8.prems" obtain cs1 where "(b', s', cs1) \<in> set (run x (b, s, cs))"
    by auto
  from "8.hyps" [OF this] show ?case by (blast intro: a_Grp)
qed

lemma run_complete:
  "accepts r b w e \<Longrightarrow> next_word s' = e \<Longrightarrow>
     \<exists>cs'. (last_word b w, s', cs') \<in> set (run r (b, w @ s', cs))"
proof (induction arbitrary: s' cs rule: accepts.induct)
  case (a_Seq x b u v e y)
  have "next_word (v @ s') = first_word v e"
    using a_Seq.prems by (simp add: next_word_append)
  from a_Seq.IH(1) [OF this, of cs] obtain cs1 where
    m: "(last_word b u, v @ s', cs1) \<in> set (run x (b, u @ v @ s', cs))" by blast
  from a_Seq.IH(2) [OF a_Seq.prems, of cs1] obtain cs2 where
    r: "(last_word (last_word b u) v, s', cs2) \<in> set (run y (last_word b u, v @ s', cs1))"
    by blast
  from m r show ?case by (auto intro!: exI [of _ cs2] bexI [OF _ m])
next
  case (a_StarS u x b v e)
  have "next_word (v @ s') = first_word v e"
    using a_StarS.prems by (simp add: next_word_append)
  from a_StarS.IH(1) [OF this, of cs] obtain cs1 where
    m: "(last_word b u, v @ s', cs1) \<in> set (run x (b, u @ v @ s', cs))" by blast
  from a_StarS.IH(2) [OF a_StarS.prems, of cs1] obtain cs2 where
    r: "(last_word (last_word b u) v, s', cs2)
          \<in> set (run (Star x) (last_word b u, v @ s', cs1))"
    by blast
  from a_StarS.hyps(1) have l: "length (v @ s') < length (u @ v @ s')" by (cases u) auto
  have "(last_word b (u @ v), s', cs2) \<in> set (run (Star x) (b, u @ v @ s', cs))"
    apply (subst in_run_Star)
    apply (rule disjI2)
    apply (rule exI [of _ "last_word b u"], rule exI [of _ "v @ s'"], rule exI [of _ cs1])
    using m r l apply simp
    done
  then show ?case by auto
next
  case (a_Eps b e)
  then show ?case by simp
next
  case (a_Chr P c b e)
  then show ?case by simp
next
  case (a_Bnd b e)
  then show ?case by simp
next
  case (a_AltL x b w e y)
  from a_AltL.IH [OF a_AltL.prems, of cs] show ?case by auto
next
  case (a_AltR y b w e x)
  from a_AltR.IH [OF a_AltR.prems, of cs] show ?case by auto
next
  case (a_OptN x b e)
  then show ?case by auto
next
  case (a_OptS x b w e)
  from a_OptS.IH [OF a_OptS.prems, of cs] show ?case by auto
next
  case (a_StarN x b e)
  then show ?case by (auto simp: in_run_Star [of _ x b s' cs])
next
  case (a_Grp x b w e n)
  from a_Grp.IH [OF a_Grp.prems, of cs] obtain cs1 where
    "(last_word b w, s', cs1) \<in> set (run x (b, w @ s', cs))" by blast
  then show ?case by force
qed

lemma times_numeral: "times (numeral k) r = Seq r (times (pred_numeral k) r)"
  by (simp add: numeral_eq_Suc)

lemma upto_numeral: "upto (numeral k) r = Opt (Seq r (upto (pred_numeral k) r))"
  by (simp add: numeral_eq_Suc)

lemmas re_defs = seqs_def str_def istr_def lit_def ilit_def times_numeral upto_numeral between_def
  at_least_def digit_def space_def no_captures_def js_match_def next_word_def js_replace_def
  js_match_all_def capture_def run_Star
lemmas chr_defs = is_digit_def is_upper_def is_lower_def is_alpha_def is_word_def is_space_def
  lower_char_def is_latin1_upper_def

section \<open>Redaction, pattern by pattern\<close>

inductive_cases acc_EpsE: "accepts Eps b w e"
inductive_cases acc_BndE: "accepts Bnd b w e"
inductive_cases acc_SeqE: "accepts (Seq x y) b w e"

lemma accepts_alphabet: "accepts r b w e \<Longrightarrow> set w \<subseteq> alphabet r"
  by (induction rule: accepts.induct) auto

lemma accepts_min_len: "accepts r b w e \<Longrightarrow> min_len r \<le> length w"
  by (induction rule: accepts.induct) auto

lemma alphabet_seqs: "alphabet (seqs rs) = (\<Union>r\<in>set rs. alphabet r)"
  by (induction rs) (auto simp: seqs_def)

lemma min_len_seqs: "min_len (seqs rs) = sum_list (map min_len rs)"
  by (induction rs) (auto simp: seqs_def)

lemma seqs_Cons: "seqs (r # rs) = Seq r (seqs rs)"
  by (simp add: seqs_def)

lemma seqs_start: "accepts (seqs (Bnd # rs)) b w e \<Longrightarrow> b \<noteq> first_word w e"
  by (auto simp: seqs_Cons elim!: acc_SeqE acc_BndE)

lemma seqs_end: "accepts (seqs (rs @ [Bnd])) b w e \<Longrightarrow> last_word b w \<noteq> e"
proof (induction rs arbitrary: b w)
  case Nil
  then show ?case
    by (auto simp: seqs_def elim!: acc_SeqE acc_BndE acc_EpsE)
next
  case (Cons r rs)
  from Cons.prems obtain u v where
      w: "w = u @ v" and v: "accepts (seqs (rs @ [Bnd])) (last_word b u) v e"
    by (auto simp: seqs_Cons elim!: acc_SeqE)
  from Cons.IH [OF v] w show ?case by simp
qed

lemma bounded_patternI:
  assumes "r = seqs (Bnd # mid @ [Bnd])"
    and "0 < sum_list (map min_len mid)"
    and "\<And>x. x \<in> set mid \<Longrightarrow> CHR ''['' \<notin> alphabet x"
  shows "bounded_pattern r"
  unfolding bounded_pattern_def
proof (intro allI impI)
  fix b w e
  assume a: "accepts r b w e"
  have "min_len r = sum_list (map min_len mid)"
    by (simp add: assms(1) min_len_seqs)
  with accepts_min_len [OF a] assms(2) have "0 < length w"
    by linarith
  then have "w \<noteq> []"
    by auto
  moreover from a assms(1) have "b \<noteq> first_word w e"
    using seqs_start by blast
  moreover from a assms(1) have "last_word b w \<noteq> e"
    using seqs_end [of "Bnd # mid"] by simp
  moreover from accepts_alphabet [OF a] assms(1,3) have "CHR ''['' \<notin> set w"
    by (auto simp: alphabet_seqs)
  ultimately show "w \<noteq> [] \<and> b \<noteq> first_word w e \<and> last_word b w \<noteq> e \<and> CHR ''['' \<notin> set w"
    by simp
qed

lemma hit_iff:
  "run r (b, s, cs) \<noteq> [] \<longleftrightarrow> (\<exists>w t. s = w @ t \<and> accepts r b w (next_word t))"
proof
  assume "run r (b, s, cs) \<noteq> []"
  then obtain b' s' cs' where "(b', s', cs') \<in> set (run r (b, s, cs))"
    by (cases "run r (b, s, cs)") auto
  from run_sound [OF this] show "\<exists>w t. s = w @ t \<and> accepts r b w (next_word t)"
    by blast
next
  assume "\<exists>w t. s = w @ t \<and> accepts r b w (next_word t)"
  then obtain w t where "s = w @ t" "accepts r b w (next_word t)" by blast
  with run_complete [of r b w "next_word t" t cs] show "run r (b, s, cs) \<noteq> []"
    by auto
qed

lemma run_head:
  assumes "run r (b, s, cs) = (b', s', cs') # rest"
  shows "\<exists>w. s = w @ s' \<and> b' = last_word b w \<and> accepts r b w (next_word s')"
  using run_sound [of b' s' cs' r b s cs] assms by simp

lemma bracket_prefix:
  "w @ t = CHR ''['' # rest \<Longrightarrow> CHR ''['' \<notin> set w \<Longrightarrow> w = [] \<and> t = CHR ''['' # rest"
  by (cases w) auto

lemma last_word_Cons: "last_word b (c # w) = last_word (is_word c) w"
  by (simp add: last_word_def)

lemma redact_prefix:
  assumes "\<And>w cs. f w cs = ''[REDACTED]''"
    and "bounded_pattern P"
    and "replace_all P f b s = w @ t'"
    and "CHR ''['' \<notin> set w"
  shows "\<exists>t. s = w @ t \<and>
           (next_word t = next_word t' \<or> (\<not> next_word t' \<and> last_word b w \<noteq> next_word t))"
  using assms
proof (induction P f b s arbitrary: w t' rule: replace_all.induct)
  case (1 r f b)
  show ?case
  proof (cases "run r (b, [], no_captures)")
    case Nil
    with "1.prems" show ?thesis by simp
  next
    case (Cons st rest)
    obtain b' s' cs where st: "st = (b', s', cs)" by (cases st)
    from "1.prems"(3) Cons st "1.prems"(1) have "w @ t' = ''[REDACTED]''" by simp
    with "1.prems"(4) have "w = []" "t' = ''[REDACTED]''"
      using bracket_prefix by auto
    then show ?thesis by (simp add: next_word_def is_word_def is_alpha_def is_upper_def
          is_lower_def is_digit_def)
  qed
next
  case (2 r f b c s)
  show ?case
  proof (cases "run r (b, c # s, no_captures)")
    case Nil
    with "2.prems"(3) have out: "c # replace_all r f (is_word c) s = w @ t'" by simp
    show ?thesis
    proof (cases w)
      case Nil
      with out show ?thesis by auto
    next
      case (Cons c' w')
      with out have c': "c' = c" and rest: "replace_all r f (is_word c) s = w' @ t'"
        by auto
      from "2.prems"(4) Cons have "CHR ''['' \<notin> set w'" by simp
      from "2.IH"(1) [OF Nil "2.prems"(1,2) rest this]
      show ?thesis by (auto simp: Cons c' last_word_Cons)
    qed
  next
    case (Cons st rest)
    obtain b' s' cs where st: "st = (b', s', cs)" by (cases st)
    have "\<exists>x. replace_all r f b (c # s) = CHR ''['' # x"
      by (cases "length s' < length (c # s)") (simp_all add: Cons st "2.prems"(1))
    with "2.prems"(3) obtain x where "w @ t' = CHR ''['' # x"
      by auto
    with "2.prems"(4) have w: "w = []" and t': "t' = CHR ''['' # x"
      using bracket_prefix [of w t' x] by auto
    from run_head [OF Cons [unfolded st]] obtain u where
      u: "c # s = u @ s'" "accepts r b u (next_word s')" by blast
    with "2.prems"(2) have "b \<noteq> first_word u (next_word s')"
      by (auto simp: bounded_pattern_def)
    with u(1) have "b \<noteq> next_word (c # s)"
      by (metis next_word_append)
    with w t' show ?thesis 
      by (simp add: next_word_def is_word_def is_alpha_def is_upper_def
          is_lower_def is_digit_def)
  qed
qed

lemma shorter_rest: "s = u @ s' \<Longrightarrow> u \<noteq> [] \<Longrightarrow> length s' < length s"
  by (cases u) auto

lemma any_match_append: "any_match r (last_word b u) s \<Longrightarrow> any_match r b (u @ s)"
proof (induction u arbitrary: b)
  case Nil
  then show ?case by simp
next
  case (Cons c u)
  from Cons.prems have "any_match r (last_word (is_word c) u) s"
    by (simp add: last_word_Cons)
  from Cons.IH [OF this] show ?case by simp
qed

lemma any_match_context:
  "any_match r b s \<Longrightarrow> run r (b, s, no_captures) = [] \<Longrightarrow> any_match r b' s"
  by (cases s) auto

lemma hit_transfer:
  assumes f: "\<And>w cs. f w cs = ''[REDACTED]''"
    and P: "bounded_pattern P" and Q: "bounded_pattern Q"
    and hit: "run Q (b, replace_all P f b s, cs) \<noteq> []"
  shows "run Q (b, s, cs') \<noteq> []"
proof -
  from hit obtain w t' where out: "replace_all P f b s = w @ t'"
      and acc: "accepts Q b w (next_word t')"
    by (auto simp: hit_iff)
  from Q acc have nb: "CHR ''['' \<notin> set w" and e: "last_word b w \<noteq> next_word t'"
    by (auto simp: bounded_pattern_def)
  from redact_prefix [OF f P out nb] obtain t where
      s: "s = w @ t" and
      c: "next_word t = next_word t' \<or> (\<not> next_word t' \<and> last_word b w \<noteq> next_word t)"
    by blast
  from c e have "next_word t = next_word t'" by auto
  with acc have "accepts Q b w (next_word t)" by simp
  with s show ?thesis unfolding hit_iff by blast
qed

lemma after_token:
  assumes f: "\<And>w cs. f w cs = ''[REDACTED]''"
    and P: "bounded_pattern P" and Q: "bounded_pattern Q"
    and head: "run P (b, s, no_captures) = (b', s', cs) # rest"
    and m: "any_match Q False (replace_all P f b' s')"
  shows "any_match Q b' (replace_all P f b' s')"
proof (cases "run Q (False, replace_all P f b' s', no_captures) = []")
  case True
  with m show ?thesis by (rule any_match_context)
next
  case False
  then obtain w t' where out: "replace_all P f b' s' = w @ t'"
      and acc: "accepts Q False w (next_word t')"
    by (auto simp: hit_iff)
  from Q acc have "first_word w (next_word t')" and nb: "CHR ''['' \<notin> set w"
    by (auto simp: bounded_pattern_def)
  with out have nx: "next_word (replace_all P f b' s')"
    by (simp add: next_word_append)
  have "replace_all P f b' s' = [] @ replace_all P f b' s'" by simp
  from redact_prefix [OF f P this] nx
  have "next_word s'" by auto
  moreover from run_head [OF head] obtain u where
    "b' = last_word b u" "accepts P b u (next_word s')" by blast
  with P have "b' \<noteq> next_word s'"
    by (auto simp: bounded_pattern_def)
  ultimately have "b' = False" by auto
  with m show ?thesis by simp
qed

lemma any_transfer:
  assumes "\<And>w cs. f w cs = ''[REDACTED]''"
    and "bounded_pattern P" and "bounded_pattern Q" and "skips_token Q"
    and "any_match Q b (replace_all P f b s)"
  shows "any_match Q b s"
  using assms
proof (induction P f b s rule: replace_all.induct)
  case (1 r f b)
  show ?case
  proof (cases "run r (b, [], no_captures)")
    case Nil
    with "1.prems"(5) show ?thesis by simp
  next
    case (Cons st rest)
    obtain b' s' cs where st: "st = (b', s', cs)" by (cases st)
    from run_head [OF Cons [unfolded st]] "1.prems"(2) show ?thesis
      by (auto simp: bounded_pattern_def)
  qed
next
  case (2 r f b c s)
  note f = "2.prems"(1) and P = "2.prems"(2) and Q = "2.prems"(3) and sk = "2.prems"(4)
  show ?case
  proof (cases "run r (b, c # s, no_captures)")
    case Nil
    then have out: "replace_all r f b (c # s) = c # replace_all r f (is_word c) s"
      by simp
    show ?thesis
    proof (cases "run Q (b, replace_all r f b (c # s), no_captures) = []")
      case True
      with "2.prems"(5) out have "any_match Q (is_word c) (replace_all r f (is_word c) s)"
        by simp
      from "2.IH"(1) [OF Nil f P Q sk this] show ?thesis by simp
    next
      case False
      from hit_transfer [OF f P Q False] show ?thesis by simp
    qed
  next
    case (Cons st rest)
    obtain b' s' cs where st: "st = (b', s', cs)" by (cases st)
    note head = Cons [unfolded st]
    from run_head [OF head] obtain u where
      u: "c # s = u @ s'" "b' = last_word b u" "accepts r b u (next_word s')" by blast
    with P have "u \<noteq> []" by (auto simp: bounded_pattern_def)
    with u(1) have l: "length s' < length (c # s)"
      by (rule shorter_rest)
    with head f have out: "replace_all r f b (c # s) = ''[REDACTED]'' @ replace_all r f b' s'"
      by simp
    with "2.prems"(5) sk have "any_match Q False (replace_all r f b' s')"
      by (simp add: skips_token_def)
    from after_token [OF f P Q head this]
    have "any_match Q b' (replace_all r f b' s')" .
    from "2.IH"(2) [OF head refl refl l f P Q sk this] have "any_match Q b' s'" .
    with u show ?thesis
      using any_match_append [of Q b u s'] by simp
  qed
qed

lemma self_clean:
  assumes "\<And>w cs. f w cs = ''[REDACTED]''"
    and "bounded_pattern P" and "skips_token P"
  shows "\<not> any_match P b (replace_all P f b s)"
  using assms
proof (induction P f b s rule: replace_all.induct)
  case (1 r f b)
  show ?case
  proof (cases "run r (b, [], no_captures)")
    case Nil
    then show ?thesis by simp
  next
    case (Cons st rest)
    obtain b' s' cs where st: "st = (b', s', cs)" by (cases st)
    from run_head [OF Cons [unfolded st]] "1.prems"(2) show ?thesis
      by (auto simp: bounded_pattern_def)
  qed
next
  case (2 r f b c s)
  note f = "2.prems"(1) and P = "2.prems"(2) and sk = "2.prems"(3)
  show ?case
  proof (cases "run r (b, c # s, no_captures)")
    case Nil
    then have out: "replace_all r f b (c # s) = c # replace_all r f (is_word c) s"
      by simp
    have "run r (b, replace_all r f b (c # s), no_captures) = []"
    proof (rule ccontr)
      assume "run r (b, replace_all r f b (c # s), no_captures) \<noteq> []"
      from hit_transfer [OF f P P this, of no_captures] Nil show False by simp
    qed
    with "2.IH"(1) [OF Nil f P sk] out show ?thesis by simp
  next
    case (Cons st rest)
    obtain b' s' cs where st: "st = (b', s', cs)" by (cases st)
    note head = Cons [unfolded st]
    from run_head [OF head] obtain u where
      u: "c # s = u @ s'" "b' = last_word b u" "accepts r b u (next_word s')" by blast
    with P have "u \<noteq> []" by (auto simp: bounded_pattern_def)
    with u(1) have l: "length s' < length (c # s)"
      by (rule shorter_rest)
    with head f have out: "replace_all r f b (c # s) = ''[REDACTED]'' @ replace_all r f b' s'"
      by simp
    show ?thesis
    proof
      assume "any_match r b (replace_all r f b (c # s))"
      with out sk have "any_match r False (replace_all r f b' s')"
        by (simp add: skips_token_def)
      from after_token [OF f P P head this] "2.IH"(2) [OF head refl refl l f P sk]
      show False by simp
    qed
  qed
qed

lemma match_all_Nil_iff: "match_all r b s = [] \<longleftrightarrow> \<not> any_match r b s"
proof (induction r b s rule: match_all.induct)
  case (1 r b)
  then show ?case by (simp split: list.splits)
next
  case (2 r b c s)
  then show ?case by (simp split: list.splits prod.splits)
qed

lemma alphabet_times: "alphabet (times n r) \<subseteq> alphabet r"
  by (induction n) auto

lemma alphabet_upto: "alphabet (upto n r) \<subseteq> alphabet r"
  by (induction n) auto

lemma alphabet_between: "alphabet (between n m r) \<subseteq> alphabet r"
  using alphabet_times alphabet_upto by (auto simp: between_def)

lemma alphabet_at_least: "alphabet (at_least n r) \<subseteq> alphabet r"
  using alphabet_times by (auto simp: at_least_def)

lemma in_at_least: "c \<in> alphabet (at_least n r) \<Longrightarrow> c \<in> alphabet r"
  using alphabet_at_least by blast

lemma min_len_times: "min_len (times n r) = n * min_len r"
  by (induction n) auto

lemma min_len_between: "min_len (between n m r) \<ge> n * min_len r"
  by (simp add: between_def min_len_times)

lemma min_len_at_least: "min_len (at_least n r) = n * min_len r"
  by (simp add: at_least_def min_len_times)

lemma bracket_classes:
  "CHR ''['' \<notin> alphabet digit" "CHR ''['' \<notin> alphabet space" "CHR ''['' \<notin> alphabet (lit CHR ''-'')"
  "CHR ''['' \<notin> alphabet (lit CHR ''/'')" "CHR ''['' \<notin> alphabet (lit CHR ''@'')"
  "CHR ''['' \<notin> alphabet (lit CHR ''.'')"
  by (simp_all add: digit_def space_def lit_def chr_defs)

lemma bounded_ssn: "bounded_pattern ssn_re"
  apply (rule bounded_patternI [where mid = "[times 3 digit, lit CHR ''-'', times 2 digit, lit CHR ''-'', times 4 digit]"])
    apply (simp add: ssn_re_def)
   apply (simp add: min_len_times digit_def)
  using alphabet_times bracket_classes apply auto
  done

lemma bounded_card: "bounded_pattern card_re"
  apply (rule bounded_patternI [where mid = "[times 4 digit, Opt space, times 4 digit, Opt space,
           times 4 digit, Opt space, times 4 digit]"])
    apply (simp add: card_re_def)
   apply (simp add: min_len_times digit_def)
  using alphabet_times bracket_classes apply auto
  done

lemma bounded_phone: "bounded_pattern phone_re"
  apply (rule bounded_patternI [where mid = "[between 10 11 digit]"])
    apply (simp add: phone_re_def)
  using min_len_between [of 10 digit 11] apply (simp add: digit_def)
  using alphabet_between bracket_classes apply auto
  done

lemma bounded_date: "bounded_pattern date_re"
  apply (rule bounded_patternI [where mid = "[between 1 2 digit, lit CHR ''/'', between 1 2 digit,
           lit CHR ''/'', between 2 4 digit]"])
    apply (simp add: date_re_def)
   apply (simp add: lit_def)
  using alphabet_between bracket_classes apply auto
  done

lemma bounded_email: "bounded_pattern email_re"
  apply (rule bounded_patternI [where mid = "[
           at_least 1 (Chr (\<lambda>c. is_alpha c \<or> is_digit c \<or> c \<in> set ''._%+-'')),
           lit CHR ''@'',
           at_least 1 (Chr (\<lambda>c. is_alpha c \<or> is_digit c \<or> c \<in> set ''.-'')),
           lit CHR ''.'',
           at_least 2 (Chr (\<lambda>c. is_alpha c \<or> c = CHR ''|''))]"])
    apply (simp add: email_re_def)
   apply (simp add: lit_def)
  using bracket_classes apply (auto dest!: in_at_least simp: chr_defs)
  done

lemma skips_ssn: "skips_token ssn_re"
  unfolding skips_token_def
  by (intro allI impI, case_tac b) (simp_all add: ssn_re_def re_defs chr_defs)

lemma skips_card: "skips_token card_re"
  unfolding skips_token_def
  by (intro allI impI, case_tac b) (simp_all add: card_re_def re_defs chr_defs)

lemma skips_phone: "skips_token phone_re"
  unfolding skips_token_def
  by (intro allI impI, case_tac b) (simp_all add: phone_re_def re_defs chr_defs)

lemma skips_date: "skips_token date_re"
  unfolding skips_token_def
  by (intro allI impI, case_tac b) (simp_all add: date_re_def re_defs chr_defs)

lemma skips_email: "skips_token email_re"
  unfolding skips_token_def
  by (intro allI impI, case_tac b) (simp_all add: email_re_def re_defs chr_defs)

lemma stays_clean:
  assumes "bounded_pattern P" "bounded_pattern Q" "skips_token Q"
    and "\<not> any_match Q False s"
  shows "\<not> any_match Q False (js_replace s P (\<lambda>w cs. ''[REDACTED]''))"
  using any_transfer [of "\<lambda>w cs. ''[REDACTED]''" P Q False s] assms
  by (auto simp: js_replace_def)

lemma becomes_clean:
  assumes "bounded_pattern P" "skips_token P"
  shows "\<not> any_match P False (js_replace s P (\<lambda>w cs. ''[REDACTED]''))"
  using self_clean [of "\<lambda>w cs. ''[REDACTED]''" P False s] assms
  by (simp add: js_replace_def)

lemma no_detection:
  "js_match_all s r = None \<longleftrightarrow> \<not> any_match r False s"
  by (simp add: js_match_all_def match_all_Nil_iff [symmetric] split: list.splits)

lemmas phi_bounded = bounded_ssn bounded_card bounded_email bounded_phone bounded_date
lemmas phi_skips = skips_ssn skips_card skips_email skips_phone skips_date

lemma fold_stays_clean:
  assumes "\<And>P. P \<in> set ps \<Longrightarrow> bounded_pattern P"
    and "bounded_pattern Q" "skips_token Q"
    and "\<not> any_match Q False s"
  shows "\<not> any_match Q False
           (foldl (\<lambda>redacted pattern. js_replace redacted pattern (\<lambda>w cs. ''[REDACTED]'')) s ps)"
  using assms
proof (induction ps arbitrary: s)
  case Nil
  then show ?case by simp
next
  case (Cons P ps)
  have "\<not> any_match Q False (js_replace s P (\<lambda>w cs. ''[REDACTED]''))"
    by (rule stays_clean) (use Cons.prems in auto)
  with Cons show ?case by simp
qed

lemma fold_becomes_clean:
  assumes "\<And>P. P \<in> set (pre @ Q # post) \<Longrightarrow> bounded_pattern P"
    and "skips_token Q"
  shows "\<not> any_match Q False
           (foldl (\<lambda>redacted pattern. js_replace redacted pattern (\<lambda>w cs. ''[REDACTED]''))
              s (pre @ Q # post))"
proof -
  have Q: "bounded_pattern Q" using assms(1) by simp
  show ?thesis
    using assms(1) by (simp, intro fold_stays_clean becomes_clean Q assms(2)) auto
qed

lemma phi_all_bounded: "P \<in> set phiPatterns \<Longrightarrow> bounded_pattern P"
  using phi_bounded by (auto simp: phiPatterns_def)

text \<open>
  Claim C2.  After \<open>redactPHI(text, 'full_redact')\<close> none of the five PHI patterns
  matches anywhere: \<open>detectPHI\<close> of the redacted text is the empty list, for every
  text.
\<close>

theorem full_redact_clean:
  "detectPHI (redactPHI text (Some ''full_redact'')) = []"
proof -
  let ?out = "foldl (\<lambda>redacted pattern. js_replace redacted pattern (\<lambda>w cs. ''[REDACTED]''))
                text phiPatterns"
  have out: "redactPHI text (Some ''full_redact'') = ?out"
    by (simp add: redactPHI_def)
  have ssn: "\<not> any_match ssn_re False ?out"
    using fold_becomes_clean [of "[]" ssn_re "[card_re, email_re, phone_re, date_re]" "text"]
      phi_all_bounded skips_ssn by (simp add: phiPatterns_def)
  have card: "\<not> any_match card_re False ?out"
    using fold_becomes_clean [of "[ssn_re]" card_re "[email_re, phone_re, date_re]" "text"]
      phi_all_bounded skips_card by (simp add: phiPatterns_def)
  have email: "\<not> any_match email_re False ?out"
    using fold_becomes_clean [of "[ssn_re, card_re]" email_re "[phone_re, date_re]" "text"]
      phi_all_bounded skips_email by (simp add: phiPatterns_def)
  have phone: "\<not> any_match phone_re False ?out"
    using fold_becomes_clean [of "[ssn_re, card_re, email_re]" phone_re "[date_re]" "text"]
      phi_all_bounded skips_phone by (simp add: phiPatterns_def)
  have date: "\<not> any_match date_re False ?out"
    using fold_becomes_clean [of "[ssn_re, card_re, email_re, phone_re]" date_re "[]" "text"]
      phi_all_bounded skips_date by (simp add: phiPatterns_def)
  have "detectPHI ?out = []"
    unfolding detectPHI_def
    using ssn card email phone date
    by (simp add: no_detection [symmetric] phiPatterns_def)
  with out show ?thesis by simp
qed

section \<open>What partial masking replaces\<close>

inductive_cases acc_OptE: "accepts (Opt x) b w e"




lemma old_text_append [simp]: "old_text (ps @ qs) = old_text ps @ old_text qs"
  by (induction ps rule: old_text.induct) simp_all

lemma new_text_append [simp]: "new_text (ps @ qs) = new_text ps @ new_text qs"
  by (induction ps rule: new_text.induct) simp_all

lemma old_text_Keep [simp]: "old_text (map Keep w) = w"
  by (induction w) simp_all

lemma new_text_Keep [simp]: "new_text (map Keep w) = w"
  by (induction w) simp_all
























section \<open>Properties of the profile service\<close>

lemma collect_missing_Nil_iff:
  "collect_missing p cands = [] \<longleftrightarrow> list_all (\<lambda>(f, l). field_present (p f)) cands"
  by (induction cands) (auto split: if_splits)

lemma fp_x: "field_present (JStr ''x'')"
  by (simp add: field_present_def trim_def is_space_def)

lemma fp_null: "\<not> field_present JNull"
  by (simp add: field_present_def)

text \<open>
  Claim C4, amended.  \<open>getMissingProfileInfo\<close> checks nine columns: the required and
  important fields of the completion score without \<open>primary_phone\<close>.  It returns
  the empty list exactly when those nine are present (truthy and non-empty after
  trimming); for a profile whose phone is present this is exactly when all required
  and all important fields are present.
\<close>

theorem missing_empty_iff:
  assumes "db pid = Some p"
  shows "(getMissingProfileInfo db pid = [] \<longleftrightarrow>
            all_present p (removeAll ''primary_phone'' (requiredFields @ importantFields)))
       \<and> (field_present (p ''primary_phone'') \<longrightarrow>
            (getMissingProfileInfo db pid = [] \<longleftrightarrow>
               all_present p (requiredFields @ importantFields)))"
  using assms
  by (auto simp: getMissingProfileInfo_def collect_missing_Nil_iff missingCandidates_def
        all_present_def requiredFields_def importantFields_def)

text \<open>
  Claim C4 as stated fails: with the nine checked columns filled and no
  \<open>primary_phone\<close>, the missing list is empty although a required field is absent.
\<close>

theorem missing_empty_counterexample:
  "getMissingProfileInfo [''p1'' \<mapsto> nine_row] ''p1'' = []
   \<and> \<not> all_present nine_row (requiredFields @ importantFields)"
  by (simp add: getMissingProfileInfo_def missingCandidates_def nine_row_def blank_row_def
        all_present_def requiredFields_def importantFields_def fp_x fp_null)

text \<open>
  Claim C4, a profile that satisfies the hypothesis.
\<close>

theorem missing_empty_iff_witness:
  "[''p1'' \<mapsto> nine_row] ''p1'' = Some nine_row
   \<and> getMissingProfileInfo [''p1'' \<mapsto> nine_row] ''p1'' = []
   \<and> all_present nine_row (removeAll ''primary_phone'' (requiredFields @ importantFields))"
  using missing_empty_iff [of "[''p1'' \<mapsto> nine_row]" "''p1''" nine_row]
  by (simp add: nine_row_def blank_row_def
        all_present_def requiredFields_def importantFields_def fp_x fp_null)

lemma is_missing_collect:
  "is_missing (collect_missing p cands) name \<longleftrightarrow>
     (name \<in> fst ` set cands \<and> \<not> field_present (p name))"
  by (induction cands) (auto simp: is_missing_def split: if_splits)

lemma is_missing_candidates:
  "name \<in> fst ` set missingCandidates \<Longrightarrow>
   is_missing (collect_missing p missingCandidates) name \<longleftrightarrow> \<not> field_present (p name)"
  by (simp add: is_missing_collect)

lemma candidates_names:
  "fst ` set missingCandidates =
     {''first_name'', ''last_name'', ''date_of_birth'', ''street_address'', ''city'',
      ''state'', ''zip_code'', ''emergency_contact_1_name'', ''emergency_contact_1_phone''}"
  by (simp add: missingCandidates_def)

text \<open>
  Claim C5, amended.  With nothing missing the single closing acknowledgment is
  returned.  Otherwise the stages \<open>intake\<close>, \<open>address\<close> and \<open>emergency_contact\<close>
  ask for the first still-missing field of their own list (\<open>address\<close>: street, city,
  zip) and return \<open>Thank you for the information!\<close> when none of them is missing;
  every other stage asks for the first entry of the missing list.
\<close>

theorem nextQuestions_by_stage:
  assumes "db pid = Some p"
  shows "generateNextQuestions db pid (Some stage) =
    (if getMissingProfileInfo db pid = [] then [profile_complete_msg]
     else if stage \<in> {''intake'', ''address'', ''emergency_contact''} then
       (case find (\<lambda>(f, q). \<not> field_present (p f)) (stage_questions stage) of
          Some (f, q) \<Rightarrow> [q]
        | None \<Rightarrow> [thanks_msg])
     else [''Could you provide your ''
             @ toLowerCase (label (hd (getMissingProfileInfo db pid))) @ ''?''])"
proof -
  let ?m = "collect_missing p missingCandidates"
  have m: "getMissingProfileInfo db pid = ?m"
    using assms by (simp add: getMissingProfileInfo_def)
  have im: "\<And>name. name \<in> fst ` set missingCandidates \<Longrightarrow>
              is_missing ?m name \<longleftrightarrow> \<not> field_present (p name)"
    by (rule is_missing_candidates)
  show ?thesis
  proof (cases "?m = []")
    case True
    then show ?thesis by (simp add: generateNextQuestions_def m)
  next
    case False
    then obtain x xs where x: "?m = x # xs" by (cases ?m) auto
    show ?thesis
      unfolding generateNextQuestions_def m
      by (simp add: x im [unfolded x] candidates_names stage_questions_def Let_def)
  qed
qed

lemma first_name_missing_list:
  "getMissingProfileInfo [''p1'' \<mapsto> first_name_missing_row] ''p1'' =
      [\<lparr>field = ''first_name'', label = ''First Name'', priority = ''high''\<rparr>]"
  by (simp add: getMissingProfileInfo_def missingCandidates_def
        first_name_missing_row_def nine_row_def blank_row_def fp_x fp_null)

text \<open>
  Claim C5 as stated fails: in stage \<open>address\<close> with only the first name missing
  there is no fall-back to the globally missing field.
\<close>

theorem nextQuestions_counterexample:
  "getMissingProfileInfo [''p1'' \<mapsto> first_name_missing_row] ''p1'' =
      [\<lparr>field = ''first_name'', label = ''First Name'', priority = ''high''\<rparr>]
   \<and> generateNextQuestions [''p1'' \<mapsto> first_name_missing_row] ''p1'' (Some ''address'') =
      [''Thank you for the information!'']"
  by (simp add: generateNextQuestions_def first_name_missing_list is_missing_def thanks_msg_def)

text \<open>
  Claim C5, the fall-back question of a stage without a list of its own.
\<close>

theorem nextQuestions_by_stage_witness:
  "[''p1'' \<mapsto> first_name_missing_row] ''p1'' = Some first_name_missing_row
   \<and> generateNextQuestions [''p1'' \<mapsto> first_name_missing_row] ''p1'' (Some ''general'') =
       [''Could you provide your first name?'']"
proof -
  have h: "[''p1'' \<mapsto> first_name_missing_row] ''p1'' = Some first_name_missing_row"
    by simp
  have m: "getMissingProfileInfo [''p1'' \<mapsto> first_name_missing_row] ''p1'' =
             [\<lparr>field = ''first_name'', label = ''First Name'', priority = ''high''\<rparr>]"
    by (rule first_name_missing_list)
  have l: "toLowerCase ''First Name'' = ''first name''"
    by code_simp
  show ?thesis
    using nextQuestions_by_stage [of "[''p1'' \<mapsto> first_name_missing_row]" "''p1''"
            first_name_missing_row "''general''", OF h]
    by (simp add: m l)
qed

lemma add_scores_eq:
  "add_scores p w fs (s, m) =
     (s + w * length (filter (\<lambda>f. field_present (p f)) fs), m + w * length fs)"
  by (induction fs arbitrary: s m) (simp_all add: algebra_simps)

lemma completion_eq:
  "completion p =
     round_percent
       (40 * length (filter (\<lambda>f. field_present (p f)) requiredFields)
        + 30 * length (filter (\<lambda>f. field_present (p f)) importantFields)
        + 10 * length (filter (\<lambda>f. field_present (p f)) optionalFields)) 440"
  by (simp add: completion_def add_scores_eq)
     (simp add: requiredFields_def importantFields_def optionalFields_def)

lemma filter_length_mono:
  "(\<And>x. x \<in> set xs \<Longrightarrow> P x \<Longrightarrow> Q x) \<Longrightarrow> length (filter P xs) \<le> length (filter Q xs)"
  by (induction xs) auto

lemma round_percent_mono: "a \<le> b \<Longrightarrow> round_percent a m \<le> round_percent b m"
  by (simp add: round_percent_def div_le_mono)

lemma completion_mono:
  assumes "\<And>f. f \<in> set (requiredFields @ importantFields @ optionalFields) \<Longrightarrow>
               field_present (p f) \<Longrightarrow> field_present (p' f)"
  shows "completion p \<le> completion p'"
  unfolding completion_eq
  by (intro round_percent_mono add_mono mult_le_mono2 filter_length_mono) (use assms in auto)

lemma set_columns_snoc: "set_columns r (a @ [(c, v)]) = (set_columns r a)(c := v)"
  by (simp add: set_columns_def)

lemma set_columns_lookup:
  "set_columns r a c = (case map_of (rev a) c of None \<Rightarrow> r c | Some v \<Rightarrow> v)"
  by (induction a rule: rev_induct) (auto simp: set_columns_snoc set_columns_def)

lemma assigned_set:
  "(c, v) \<in> set (column_values (updateFields f)) \<longleftrightarrow>
     (\<exists>key. (key, v) \<in> set f \<and> map_of fieldMapping key = Some c \<and> v \<noteq> JNull \<and> v \<noteq> JUndefined)"
proof (induction f)
  case Nil
  then show ?case by simp
next
  case (Cons kv f)
  obtain k w where kv: "kv = (k, w)" by (cases kv)
  show ?case
    unfolding kv using Cons.IH
    by (cases "map_of fieldMapping k") (auto simp: fieldMapping_get_def split: if_splits)
qed

lemma column_values_Nil: "column_values [] = []"
  by simp

lemma merge_db_failed: "\<not> merge_ok f \<Longrightarrow> merge_db db now pid f = db"
  by (cases "updateFields f = []") (auto simp: merge_db_def updateProfileData_def merge_ok_def)

lemma merge_db_other: "pid' \<noteq> pid \<Longrightarrow> merge_db db now pid f pid' = db pid'"
  by (auto simp: merge_db_def updateProfileData_def Let_def split: option.splits)

lemma merge_db_row:
  assumes "merge_ok f" and "c \<notin> set meta_columns"
  shows "map_option (\<lambda>r. r c) (merge_db db now pid f pid) =
         map_option (\<lambda>r. case map_of (rev (column_values (updateFields f))) c of
                              None \<Rightarrow> r c | Some v \<Rightarrow> v) (db pid)"
proof (cases "updateFields f = []")
  case True
  then show ?thesis
    by (cases "db pid") (simp_all add: merge_db_def updateProfileData_def)
next
  case False
  with assms show ?thesis
    by (cases "db pid")
       (simp_all add: merge_db_def updateProfileData_def Let_def merge_ok_def meta_columns_def
          set_columns_lookup)
qed

lemma update_result:
  "updateProfileData db now pid f =
     (if merge_ok f then Inr (merge_db db now pid f pid, merge_db db now pid f)
      else Inl DatabaseError)"
  by (cases "updateFields f = []"; cases "db pid")
     (auto simp: merge_db_def updateProfileData_def Let_def merge_ok_def)

lemma mapped_not_meta:
  "map_of fieldMapping key = Some c \<Longrightarrow> c \<notin> set meta_columns"
  by (auto simp: fieldMapping_def meta_columns_def split: if_splits)

lemma scored_not_meta:
  "f \<in> set (requiredFields @ importantFields @ optionalFields) \<Longrightarrow> f \<notin> set meta_columns"
  by (auto simp: requiredFields_def importantFields_def optionalFields_def meta_columns_def)

lemma merge_keeps_present:
  assumes nb: "nonblank_fragment f" and old: "db pid = Some p"
    and new: "merge_db db now pid f pid = Some p'"
    and c: "c \<notin> set meta_columns" and pres: "field_present (p c)"
  shows "field_present (p' c)"
proof (cases "merge_ok f")
  case False
  with old new pres show ?thesis by (simp add: merge_db_failed)
next
  case True
  from merge_db_row [OF True c, of db now pid] old new
  have p': "p' c = (case map_of (rev (column_values (updateFields f))) c of
                      None \<Rightarrow> p c | Some v \<Rightarrow> v)"
    by simp
  show ?thesis
  proof (cases "map_of (rev (column_values (updateFields f))) c")
    case None
    with p' pres show ?thesis by simp
  next
    case (Some v)
    then have "(c, v) \<in> set (column_values (updateFields f))"
      using map_of_SomeD by fastforce
    then obtain key where "(key, v) \<in> set f"
      by (auto simp: assigned_set)
    with nb have "field_present v"
      by (auto simp: nonblank_fragment_def list_all_iff)
    with p' Some show ?thesis by simp
  qed
qed

lemma merge_db_exists: "db pid = Some p \<Longrightarrow> \<exists>p'. merge_db db now pid f pid = Some p'"
  by (cases "updateFields f = []")
     (auto simp: merge_db_def updateProfileData_def Let_def)

lemma merge_step_mono:
  assumes "nonblank_fragment f"
  shows "fst (calculateCompletionPercentage db pid)
           \<le> fst (calculateCompletionPercentage (merge_db db now pid f) pid)"
proof (cases "db pid")
  case None
  then have "merge_db db now pid f pid = None"
    by (auto simp: merge_db_def updateProfileData_def Let_def)
  with None show ?thesis by (simp add: calculateCompletionPercentage_def)
next
  case (Some p)
  from merge_db_exists [of db pid p now f, OF Some]
  obtain p' where p': "merge_db db now pid f pid = Some p'"
    by blast
  have "completion p \<le> completion p'"
    by (rule completion_mono) (use merge_keeps_present [OF assms Some p'] scored_not_meta in blast)
  with Some p' show ?thesis by (simp add: calculateCompletionPercentage_def Let_def)
qed

lemma merge_trace_hd: "merge_trace db pid ms \<noteq> [] \<and> hd (merge_trace db pid ms) = db"
  by (cases ms) auto

text \<open>
  Claim C6.  Along any sequence of merges whose fragment values are all present
  (non-empty after trimming), the completion percentages form a non-decreasing
  sequence.
\<close>

theorem completion_monotone:
  assumes "list_all (\<lambda>(now, f). nonblank_fragment f) ms"
  shows "sorted (map (\<lambda>d. fst (calculateCompletionPercentage d pid)) (merge_trace db pid ms))"
  using assms
proof (induction ms arbitrary: db)
  case Nil
  then show ?case by simp
next
  case (Cons m ms)
  obtain now f where m: "m = (now, f)" by (cases m)
  let ?db' = "merge_db db now pid f"
  obtain t where t: "merge_trace ?db' pid ms = ?db' # t"
    using merge_trace_hd [of ?db' pid ms] by (cases "merge_trace ?db' pid ms") auto
  from Cons.prems m have nb: "nonblank_fragment f" and rest: "list_all (\<lambda>(now, f). nonblank_fragment f) ms"
    by auto
  from Cons.IH [OF rest, of ?db'] merge_step_mono [OF nb, of db pid now]
  show ?case by (fastforce simp: m t)
qed

lemma fp_Ann: "field_present (JStr ''Ann'')" "field_present (JStr ''Lee'')"
  by (simp_all add: field_present_def trim_def is_space_def)

text \<open>
  Claim C6 on the merges \<open>{firstName: Ann}\<close>, \<open>{lastName: Lee}\<close>.
\<close>

theorem completion_monotone_witness:
  "list_all (\<lambda>(now, f). nonblank_fragment f) ann_lee
   \<and> sorted (map (\<lambda>d. fst (calculateCompletionPercentage d ''p1''))
               (merge_trace [''p1'' \<mapsto> new_row] ''p1'' ann_lee))"
proof -
  have h: "list_all (\<lambda>(now, f). nonblank_fragment f) ann_lee"
    by (simp add: ann_lee_def nonblank_fragment_def fp_Ann)
  from completion_monotone [OF h] h show ?thesis by simp
qed

text \<open>
  Claim C7.  Merging the same fragment a second time changes no column of any
  profile other than \<open>updated_at\<close>, \<open>last_updated_via_sms\<close> and
  \<open>sms_conversation_count\<close>, and the second call returns what the first returned
  (the same row up to these three columns, or the same error).
\<close>

theorem merge_idempotent:
  assumes "c \<notin> set meta_columns"
  shows "map_option (\<lambda>r. r c) (merge_db (merge_db db now1 pid f) now2 pid f pid')
         = map_option (\<lambda>r. r c) (merge_db db now1 pid f pid')
       \<and> map_sum id (\<lambda>(r, d). map_option (\<lambda>row. row c) r)
           (updateProfileData (merge_db db now1 pid f) now2 pid f)
         = map_sum id (\<lambda>(r, d). map_option (\<lambda>row. row c) r)
             (updateProfileData db now1 pid f)"
proof -
  let ?db1 = "merge_db db now1 pid f"
  have same: "map_option (\<lambda>r. r c) (merge_db ?db1 now2 pid f pid)
                = map_option (\<lambda>r. r c) (?db1 pid)"
  proof (cases "merge_ok f")
    case False
    then show ?thesis by (simp add: merge_db_failed)
  next
    case True
    show ?thesis
      unfolding merge_db_row [OF True assms, of ?db1 now2 pid]
      using merge_db_row [OF True assms, of db now1 pid]
      by (cases "db pid"; cases "?db1 pid") (auto split: option.splits)
  qed
  have all: "map_option (\<lambda>r. r c) (merge_db ?db1 now2 pid f pid')
               = map_option (\<lambda>r. r c) (?db1 pid')"
    by (cases "pid' = pid") (simp_all add: same merge_db_other)
  then show ?thesis
    by (simp add: update_result same)
qed

text \<open>
  Claim C7 on the fragment \<open>{firstName: Ann}\<close>.
\<close>

theorem merge_idempotent_witness:
  "''first_name'' \<notin> set meta_columns
   \<and> map_option (\<lambda>r. r ''first_name'')
        (merge_db
           (merge_db [''p1'' \<mapsto> new_row] (JStr ''t1'') ''p1'' [(''firstName'', JStr ''Ann'')])
           (JStr ''t2'') ''p1'' [(''firstName'', JStr ''Ann'')] ''p1'')
      = Some (JStr ''Ann'')"
proof -
  have h: "''first_name'' \<notin> set meta_columns"
    by (simp add: meta_columns_def)
  have e: "map_option (\<lambda>r. r ''first_name'')
            (merge_db [''p1'' \<mapsto> new_row] (JStr ''t1'') ''p1''
                      [(''firstName'', JStr ''Ann'')] ''p1'') = Some (JStr ''Ann'')"
    by (simp add: merge_db_def updateProfileData_def fieldMapping_get_def fieldMapping_def
          set_columns_def Let_def)
  from merge_idempotent [OF h, of "[''p1'' \<mapsto> new_row]" "JStr ''t1''" "''p1''"
         "[(''firstName'', JStr ''Ann'')]" "JStr ''t2''" "''p1''"] h e
  show ?thesis by simp
qed

lemma fieldMapping_distinct:
  "distinct (map fst fieldMapping)" "distinct (map snd fieldMapping)"
  by (simp_all add: fieldMapping_def)

lemma map_of_swap_iff:
  assumes "distinct (map fst xs)" "distinct (map snd xs)"
  shows "map_of (map prod.swap xs) c = Some k \<longleftrightarrow> map_of xs k = Some c"
proof -
  have "distinct (map fst (map prod.swap xs))"
    using assms(2) by (simp add: comp_def)
  then have "map_of (map prod.swap xs) c = Some k \<longleftrightarrow> (c, k) \<in> set (map prod.swap xs)"
    by simp
  also have "\<dots> \<longleftrightarrow> (k, c) \<in> set xs" by auto
  also have "\<dots> \<longleftrightarrow> map_of xs k = Some c" using assms(1) by simp
  finally show ?thesis .
qed

lemma written_iff:
  assumes "distinct (map fst f)"
  shows "written f c = Some v \<longleftrightarrow>
     (\<exists>key. (key, v) \<in> set f \<and> map_of fieldMapping key = Some c \<and> v \<noteq> JNull \<and> v \<noteq> JUndefined)"
proof
  assume "written f c = Some v"
  then obtain key where "map_of (map prod.swap fieldMapping) c = Some key"
      "map_of f key = Some v" "v \<noteq> JNull \<and> v \<noteq> JUndefined"
    by (auto simp: written_def split: option.splits if_splits)
  then show "\<exists>key. (key, v) \<in> set f \<and> map_of fieldMapping key = Some c
               \<and> v \<noteq> JNull \<and> v \<noteq> JUndefined"
    using map_of_swap_iff [OF fieldMapping_distinct] map_of_SomeD by fast
next
  assume "\<exists>key. (key, v) \<in> set f \<and> map_of fieldMapping key = Some c
               \<and> v \<noteq> JNull \<and> v \<noteq> JUndefined"
  then obtain key where key: "(key, v) \<in> set f" "map_of fieldMapping key = Some c"
      "v \<noteq> JNull" "v \<noteq> JUndefined"
    by auto
  from key(2) have "map_of (map prod.swap fieldMapping) c = Some key"
    by (simp add: map_of_swap_iff [OF fieldMapping_distinct])
  moreover from key(1) assms have "map_of f key = Some v" by simp
  ultimately show "written f c = Some v"
    using key(3,4) by (simp add: written_def)
qed

lemma assigned_keys:
  "c \<in> fst ` set (column_values (updateFields f))
     \<Longrightarrow> \<exists>key \<in> fst ` set f. map_of fieldMapping key = Some c"
  by (force simp: assigned_set)

lemma assigned_distinct:
  "distinct (map fst f) \<Longrightarrow> distinct (map fst (column_values (updateFields f)))"
proof (induction f)
  case Nil
  then show ?case by simp
next
  case (Cons kv f)
  obtain k w where kv: "kv = (k, w)" by (cases kv)
  from Cons.prems kv have k: "k \<notin> fst ` set f" and d: "distinct (map fst f)" by auto
  have "c \<notin> fst ` set (column_values (updateFields f))" if "map_of fieldMapping k = Some c" for c
  proof
    assume "c \<in> fst ` set (column_values (updateFields f))"
    then obtain key where key: "key \<in> fst ` set f" "map_of fieldMapping key = Some c"
      using assigned_keys by blast
    with that have "key = k"
      using map_of_swap_iff [OF fieldMapping_distinct] by (metis option.inject)
    with key k show False by simp
  qed
  with Cons.IH [OF d] show ?case
    by (auto simp: kv fieldMapping_get_def split: option.splits)
qed

lemma assigned_lookup:
  assumes "distinct (map fst f)"
  shows "map_of (rev (column_values (updateFields f))) c = written f c"
proof -
  let ?a = "column_values (updateFields f)"
  have d: "distinct (map fst (rev ?a))"
    using assigned_distinct [OF assms] by (simp add: rev_map [symmetric])
  show ?thesis
  proof (cases "written f c")
    case None
    have "map_of (rev ?a) c = None"
    proof (rule ccontr)
      assume "map_of (rev ?a) c \<noteq> None"
      then obtain v where "map_of (rev ?a) c = Some v" by auto
      then have "(c, v) \<in> set ?a" using map_of_SomeD by fastforce
      then have "written f c = Some v"
        by (simp add: written_iff [OF assms] assigned_set)
      with None show False by simp
    qed
    with None show ?thesis by simp
  next
    case (Some v)
    then have "(c, v) \<in> set (rev ?a)"
      by (simp add: written_iff [OF assms] assigned_set)
    with d have "map_of (rev ?a) c = Some v" by simp
    with Some show ?thesis by simp
  qed
qed

lemma own_keys_first: "key \<in> set objectPrototypeKeys \<Longrightarrow> map_of fieldMapping key = None"
proof -
  have "list_all (\<lambda>k. map_of fieldMapping k = None) objectPrototypeKeys"
    by (simp add: objectPrototypeKeys_def fieldMapping_def)
  then show "key \<in> set objectPrototypeKeys \<Longrightarrow> map_of fieldMapping key = None"
    by (simp add: list_all_iff)
qed

lemma inherited_iff: "inherited_key f \<longleftrightarrow> \<not> merge_ok f"
proof (induction f)
  case Nil
  then show ?case by (simp add: inherited_key_def merge_ok_def)
next
  case (Cons kv f)
  obtain k w where kv: "kv = (k, w)" by (cases kv)
  show ?case
    using Cons.IH own_keys_first [of k]
    unfolding kv
    by (cases "map_of fieldMapping k")
       (auto simp: inherited_key_def merge_ok_def fieldMapping_get_def)
qed

section \<open>Extraction, classification and the scenario\<close>

lemmas extract_defs = extractInformationFromSMS_def extract_try_def extract_fields_def
  extract_with_def name_fields_def namePatterns_def name_chars_def zip_pattern_def
  phone_pattern_def medicaid_pattern_def age_pattern_def address_pattern_def
  parseInt_def digit_value_def trim_def

lemma maria_fragment:
  "extractInformationFromSMS (JStr maria_msg) =
     [(''firstName'', JStr ''Maria''), (''lastName'', JStr ''Lopez''),
      (''zipCode'', JStr ''89101''), (''age'', JNum 34)]"
  by (simp add: maria_msg_def extract_defs re_defs chr_defs)

lemma starts_with_iff: "starts_with s k \<longleftrightarrow> (\<exists>post. s = k @ post)"
  by (induction s k rule: starts_with.induct) auto

lemma js_includes_iff: "js_includes s k \<longleftrightarrow> (\<exists>pre post. s = pre @ k @ post)"
proof (induction s)
  case Nil
  then show ?case by auto
next
  case (Cons c s)
  show ?case
  proof
    assume "js_includes (c # s) k"
    then consider "starts_with (c # s) k" | "js_includes s k" by auto
    then show "\<exists>pre post. c # s = pre @ k @ post"
    proof cases
      case 1
      then obtain post where "c # s = [] @ k @ post" by (auto simp: starts_with_iff)
      then show ?thesis by blast
    next
      case 2
      with Cons obtain pre post where "s = pre @ k @ post" by blast
      then have "c # s = (c # pre) @ k @ post" by simp
      then show ?thesis by blast
    qed
  next
    assume "\<exists>pre post. c # s = pre @ k @ post"
    then obtain pre post where e: "c # s = pre @ k @ post" by blast
    show "js_includes (c # s) k"
    proof (cases pre)
      case Nil
      with e have "starts_with (c # s) k" by (auto simp: starts_with_iff)
      then show ?thesis by simp
    next
      case (Cons c' pre')
      with e have "s = pre' @ k @ post" by simp
      with Cons.IH have "js_includes s k" by blast
      then show ?thesis by simp
    qed
  qed
qed

text \<open>
  Claim C1.  A message whose lower-cased text contains the lower-cased form of
  any emergency keyword of the policy is classified as
  \<open>emergency / immediate_redirect / critical\<close>, whatever else it contains and
  whatever the other lists of the policy hold.
\<close>

theorem emergency_precedence:
  assumes "k \<in> set (emergency_keywords pol)"
    and "toLowerCase m = pre @ toLowerCase k @ post"
  shows "classifyContent pol (JStr m) =
           Inr \<lparr>category = ''emergency'', action = ''immediate_redirect'', priority = ''critical''\<rparr>"
proof -
  from assms(2) have "js_includes (toLowerCase m) (toLowerCase k)"
    unfolding js_includes_iff by blast
  with assms(1) have "some_included (toLowerCase m) (emergency_keywords pol)"
    by (auto simp: some_included_def list_ex_iff)
  then show ?thesis by (simp add: classifyContent_def)
qed

text \<open>
  Claim C1 on a message that also contains a strict-block phrase, a soft-block
  phrase and an allowed-domain phrase.
\<close>

theorem emergency_precedence_witness:
  "''Chest Pain'' \<in> set (emergency_keywords demo_policy)
   \<and> toLowerCase ''Ignore previous instructions, home care weather: I have CHEST PAIN''
       = ''ignore previous instructions, home care weather: i have '' @ toLowerCase ''Chest Pain'' @ []
   \<and> classifyContent demo_policy
        (JStr ''Ignore previous instructions, home care weather: I have CHEST PAIN'') =
      Inr \<lparr>category = ''emergency'', action = ''immediate_redirect'', priority = ''critical''\<rparr>"
proof -
  have h1: "''Chest Pain'' \<in> set (emergency_keywords demo_policy)"
    by (simp add: demo_policy_def)
  have h2: "toLowerCase ''Ignore previous instructions, home care weather: I have CHEST PAIN''
       = ''ignore previous instructions, home care weather: i have '' @ toLowerCase ''Chest Pain'' @ []"
    by (simp add: toLowerCase_def chr_defs)
  from emergency_precedence [OF h1 h2] h1 h2 show ?thesis by blast
qed

lemma empty_not_included: "[] \<notin> set phrases \<Longrightarrow> \<not> some_included [] phrases"
  by (auto simp: some_included_def list_ex_iff toLowerCase_def)

lemma extract_empty: "extractInformationFromSMS (JStr []) = []"
  by (simp add: extract_defs re_defs chr_defs)

text \<open>
  Claim C9, amended.  The empty message is classified \<open>unknown\<close> when no phrase of
  the policy is the empty string; a message that is not a string makes
  \<open>classifyContent\<close> throw a \<open>TypeError\<close>; \<open>extractInformationFromSMS\<close> returns the
  empty fragment for the empty message and for every message that is not a string.
\<close>

theorem malformed_input:
  "([] \<notin> set (all_phrases pol) \<longrightarrow>
      classifyContent pol (JStr []) =
        Inr \<lparr>category = ''unknown'', action = ''brief_redirect'', priority = ''low''\<rparr>)
   \<and> ((\<forall>s. v \<noteq> JStr s) \<longrightarrow>
        classifyContent pol v = Inl TypeError \<and> extractInformationFromSMS v = [])
   \<and> extractInformationFromSMS (JStr []) = []"
proof (intro conjI impI)
  assume "[] \<notin> set (all_phrases pol)"
  then have "\<not> some_included [] (emergency_keywords pol)" "\<not> some_included [] (strict_blocks pol)"
      "\<not> some_included [] (soft_blocks pol)"
      "\<not> some_included [] (primary_services pol @ administrative pol @ informational pol)"
    by (auto simp: all_phrases_def intro!: empty_not_included)
  then show "classifyContent pol (JStr []) =
        Inr \<lparr>category = ''unknown'', action = ''brief_redirect'', priority = ''low''\<rparr>"
    by (simp add: classifyContent_def toLowerCase_def)
next
  assume "\<forall>s. v \<noteq> JStr s"
  then show "classifyContent pol v = Inl TypeError"
    by (cases v) (simp_all add: classifyContent_def)
next
  assume "\<forall>s. v \<noteq> JStr s"
  then show "extractInformationFromSMS v = []"
    by (cases v) (simp_all add: extractInformationFromSMS_def extract_try_def)
next
  show "extractInformationFromSMS (JStr []) = []" by (rule extract_empty)
qed

text \<open>
  Claim C9 as stated fails: on a number, and on \<open>undefined\<close>, \<open>classifyContent\<close>
  throws instead of returning a classification.
\<close>

theorem malformed_input_counterexample:
  "classifyContent demo_policy (JNum 5) = Inl TypeError
   \<and> classifyContent demo_policy JUndefined = Inl TypeError"
  by (simp add: classifyContent_def)

text \<open>
  Claim C9 on the demonstration policy and the number 5.
\<close>

theorem malformed_input_witness:
  "[] \<notin> set (all_phrases demo_policy)
   \<and> classifyContent demo_policy (JStr []) =
        Inr \<lparr>category = ''unknown'', action = ''brief_redirect'', priority = ''low''\<rparr>
   \<and> (\<forall>s. JNum 5 \<noteq> JStr s)
   \<and> extractInformationFromSMS (JNum 5) = []"
proof -
  have h1: "[] \<notin> set (all_phrases demo_policy)"
    by (simp add: all_phrases_def demo_policy_def)
  have h2: "\<forall>s. JNum 5 \<noteq> JStr s" by simp
  from malformed_input [of demo_policy "JNum 5"] h1 h2 show ?thesis by blast
qed

lemma maria_stage:
  "determineConversationStage maria_msg (extractInformationFromSMS (JStr maria_msg)) = ''address''"
  by (simp add: maria_fragment determineConversationStage_def property_def)

text \<open>
  Claim C3, amended.  The message yields the fragment
  \<open>{firstName: Maria, lastName: Lopez, zipCode: 89101, age: 34}\<close>; merged into a
  blank profile it gives a completion of 27 percent (120 of 440 points: first name,
  last name and zip, the phone missing); and the stage of the message is
  \<open>address\<close>, because the fragment carries a zip code.
\<close>

theorem maria_scenario:
  "extractInformationFromSMS (JStr maria_msg) =
     [(''firstName'', JStr ''Maria''), (''lastName'', JStr ''Lopez''),
      (''zipCode'', JStr ''89101''), (''age'', JNum 34)]
   \<and> map_of (extractInformationFromSMS (JStr maria_msg)) =
       map_of [(''firstName'', JStr ''Maria''), (''lastName'', JStr ''Lopez''),
               (''age'', JNum 34), (''zipCode'', JStr ''89101'')]
   \<and> fst (calculateCompletionPercentage
            (merge_db [''p1'' \<mapsto> blank_row] now ''p1''
               (extractInformationFromSMS (JStr maria_msg))) ''p1'') = 27
   \<and> determineConversationStage maria_msg (extractInformationFromSMS (JStr maria_msg))
       = ''address''"
proof (intro conjI)
  show "extractInformationFromSMS (JStr maria_msg) =
     [(''firstName'', JStr ''Maria''), (''lastName'', JStr ''Lopez''),
      (''zipCode'', JStr ''89101''), (''age'', JNum 34)]"
    by (rule maria_fragment)
  show "map_of (extractInformationFromSMS (JStr maria_msg)) =
       map_of [(''firstName'', JStr ''Maria''), (''lastName'', JStr ''Lopez''),
               (''age'', JNum 34), (''zipCode'', JStr ''89101'')]"
    by (auto simp: maria_fragment fun_eq_iff)
  show "fst (calculateCompletionPercentage
            (merge_db [''p1'' \<mapsto> blank_row] now ''p1''
               (extractInformationFromSMS (JStr maria_msg))) ''p1'') = 27"
    by (simp add: maria_fragment merge_db_def updateProfileData_def fieldMapping_get_def
          fieldMapping_def set_columns_def Let_def
          calculateCompletionPercentage_def completion_eq requiredFields_def importantFields_def
          optionalFields_def blank_row_def field_present_def trim_def is_space_def
          round_percent_def)
  show "determineConversationStage maria_msg (extractInformationFromSMS (JStr maria_msg))
       = ''address''"
    by (rule maria_stage)
qed

text \<open>
  Claim C3 as stated fails: the stage computed for the message and its fragment is
  not \<open>intake\<close>.
\<close>

theorem maria_scenario_counterexample:
  "determineConversationStage maria_msg (extractInformationFromSMS (JStr maria_msg)) \<noteq> ''intake''"
  by (simp add: maria_stage)

section \<open>The merge of a fragment\<close>

lemma recognised_Nil_iff:
  "merge_ok f \<Longrightarrow> updateFields f = [] \<longleftrightarrow> recognised f = []"
proof (induction f)
  case Nil
  then show ?case by (simp add: recognised_def)
next
  case (Cons kv f)
  obtain k w where kv: "kv = (k, w)" by (cases kv)
  from Cons.prems have ok: "merge_ok f"
    by (auto simp: merge_ok_def kv split: option.splits if_splits)
  from Cons.prems Cons.IH [OF ok] show ?case
    unfolding kv
    by (cases "map_of fieldMapping k")
       (auto simp: recognised_def merge_ok_def fieldMapping_get_def split: if_splits)
qed

lemma completion_update:
  assumes "c \<notin> set (requiredFields @ importantFields @ optionalFields)"
  shows "completion (r(c := v)) = completion r"
proof (rule le_antisym)
  show "completion (r(c := v)) \<le> completion r"
    by (rule completion_mono) (use assms in \<open>auto split: if_splits\<close>)
  show "completion r \<le> completion (r(c := v))"
    by (rule completion_mono) (use assms in \<open>auto split: if_splits\<close>)
qed

lemma derived_not_scored:
  "completion (r(''profile_completion_percentage'' := v)) = completion r"
  "completion (r(''data_quality_score'' := v)) = completion r"
  "completion (r(''verification_status'' := v)) = completion r"
  "completion (r(''last_interaction_date'' := v)) = completion r"
  by (rule completion_update,
      simp add: requiredFields_def importantFields_def optionalFields_def)+

lemma pipeline_result:
  assumes "updateProfileData db now1 pid f = Inr (Some r1, db1)" and "db1 pid = Some r1"
  shows "createOrUpdateProfileFromSMS db now1 now2 q pid f =
           Inr ((Some r1, completion r1),
                db1(pid \<mapsto> r1(''data_quality_score'' := JNum (int q),
                               ''verification_status'' :=
                                  JStr (if completion r1 \<ge> 80 \<and> q \<ge> 80 then ''verified''
                                        else if completion r1 \<ge> 50 \<or> q \<ge> 60 then ''partial''
                                        else ''unverified''),
                               ''last_interaction_date'' := now2,
                               ''profile_completion_percentage'' := JNum (int (completion r1)))))"
  using assms
  by (simp add: createOrUpdateProfileFromSMS_def updateProfileMetrics_def
        calculateCompletionPercentage_def Let_def derived_not_scored)

lemma update_cases:
  assumes "db pid = Some old" and "merge_ok f"
  shows "updateProfileData db now pid f =
           (if recognised f = [] then Inr (Some old, db)
            else Inr (Some ((set_columns old (column_values (updateFields f)))
                              (''updated_at'' := now, ''last_updated_via_sms'' := now,
                               ''sms_conversation_count'' :=
                                  sql_increment (old ''sms_conversation_count''))),
                      db(pid \<mapsto> (set_columns old (column_values (updateFields f)))
                              (''updated_at'' := now, ''last_updated_via_sms'' := now,
                               ''sms_conversation_count'' :=
                                  sql_increment (old ''sms_conversation_count'')))))"
  using assms recognised_Nil_iff [OF assms(2)]
  by (auto simp: updateProfileData_def Let_def merge_ok_def)

lemma written_Nil:
  assumes "distinct (map fst f)" and "recognised f = []"
  shows "written f c = None"
proof (rule ccontr)
  assume "written f c \<noteq> None"
  then obtain v where "written f c = Some v" by auto
  then obtain key where "(key, v) \<in> set f" "map_of fieldMapping key = Some c"
      "v \<noteq> JNull" "v \<noteq> JUndefined"
    using written_iff [OF assms(1)] by blast
  then have "(key, v) \<in> set (recognised f)"
    by (simp add: recognised_def)
  with assms(2) show False by simp
qed

text \<open>
  Claim C8, amended.  For a profile whose interaction count is a number and a
  fragment (an object: its keys are distinct) whose keys with a value are keys of
  \<open>fieldMapping\<close> or keys that \<open>fieldMapping\<close> does not resolve,
  \<open>createOrUpdateProfileFromSMS\<close> stores a row in which exactly the columns of the
  recognised entries (a key of \<open>fieldMapping\<close> with a value other than \<open>null\<close> and
  \<open>undefined\<close>) have taken the fragment's values, every other column outside the
  derived ones is as before, the completion percentage and the verification status
  are recomputed, the data quality score is stored and \<open>last_interaction_date\<close> is
  the current time.  The interaction count is incremented by one, and \<open>updated_at\<close>
  and \<open>last_updated_via_sms\<close> are set, exactly when the fragment has a recognised
  entry; otherwise the three are as before.
\<close>

theorem merge_overwrites:
  assumes "db pid = Some old" and "distinct (map fst f)" and "\<not> inherited_key f"
    and "old ''sms_conversation_count'' = JNum n"
  shows "\<exists>r p. createOrUpdateProfileFromSMS db now1 now2 q pid f =
                 Inr ((Some p, completion r), db(pid \<mapsto> r))
           \<and> (\<forall>c. c \<notin> set derived_columns \<longrightarrow>
                  r c = (case written f c of Some v \<Rightarrow> v | None \<Rightarrow> old c))
           \<and> r ''last_interaction_date'' = now2
           \<and> r ''profile_completion_percentage'' = JNum (int (completion r))
           \<and> r ''data_quality_score'' = JNum (int q)
           \<and> r ''verification_status'' =
               JStr (if completion r \<ge> 80 \<and> q \<ge> 80 then ''verified''
                     else if completion r \<ge> 50 \<or> q \<ge> 60 then ''partial''
                     else ''unverified'')
           \<and> r ''sms_conversation_count'' = JNum (if recognised f = [] then n else n + 1)
           \<and> r ''updated_at'' = (if recognised f = [] then old ''updated_at'' else now1)
           \<and> r ''last_updated_via_sms'' =
               (if recognised f = [] then old ''last_updated_via_sms'' else now1)"
proof -
  from assms(3) have ok: "merge_ok f" by (simp add: inherited_iff)
  define r1 where "r1 =
     (if recognised f = [] then old
      else (set_columns old (column_values (updateFields f)))
             (''updated_at'' := now1, ''last_updated_via_sms'' := now1,
              ''sms_conversation_count'' := sql_increment (old ''sms_conversation_count'')))"
  define db1 where "db1 = (if recognised f = [] then db else db(pid \<mapsto> r1))"
  define r where "r =
     r1(''data_quality_score'' := JNum (int q),
        ''verification_status'' :=
           JStr (if completion r1 \<ge> 80 \<and> q \<ge> 80 then ''verified''
                 else if completion r1 \<ge> 50 \<or> q \<ge> 60 then ''partial''
                 else ''unverified''),
        ''last_interaction_date'' := now2,
        ''profile_completion_percentage'' := JNum (int (completion r1)))"
  have u: "updateProfileData db now1 pid f = Inr (Some r1, db1)"
    using update_cases [of db pid old f now1] assms(1) ok by (simp add: r1_def db1_def)
  have d: "db1 pid = Some r1"
    using assms(1) by (simp add: r1_def db1_def)
  have c: "completion r = completion r1"
    unfolding r_def by (simp only: derived_not_scored)
  have same: "db1(pid \<mapsto> r) = db(pid \<mapsto> r)"
    by (simp add: db1_def)
  have res: "createOrUpdateProfileFromSMS db now1 now2 q pid f =
               Inr ((Some r1, completion r), db(pid \<mapsto> r))"
    using pipeline_result [of db now1 pid f r1 db1 now2 q] u d
    by (simp only: r_def [symmetric] same c)
  have cols: "\<forall>c. c \<notin> set derived_columns \<longrightarrow>
                r c = (case written f c of Some v \<Rightarrow> v | None \<Rightarrow> old c)"
  proof (cases "recognised f = []")
    case True
    then show ?thesis
      by (simp add: r_def r1_def derived_columns_def written_Nil [OF assms(2)])
  next
    case False
    then show ?thesis
      by (auto simp: r_def r1_def derived_columns_def set_columns_lookup
            assigned_lookup [OF assms(2)] split: option.splits)
  qed
  have count: "r ''sms_conversation_count'' = JNum (if recognised f = [] then n else n + 1)"
    using assms(4) by (simp add: r_def r1_def sql_increment_def)
  have stamps: "r ''updated_at'' = (if recognised f = [] then old ''updated_at'' else now1)"
      "r ''last_updated_via_sms'' =
         (if recognised f = [] then old ''last_updated_via_sms'' else now1)"
      "r ''last_interaction_date'' = now2"
    by (simp_all add: r_def r1_def)
  have pcp: "r ''profile_completion_percentage'' = JNum (int (completion r))"
      "r ''data_quality_score'' = JNum (int q)"
      "r ''verification_status'' =
         JStr (if completion r \<ge> 80 \<and> q \<ge> 80 then ''verified''
               else if completion r \<ge> 50 \<or> q \<ge> 60 then ''partial''
               else ''unverified'')"
    unfolding c by (simp_all add: r_def)
  from res cols count stamps pcp show ?thesis
    by blast
qed

text \<open>
  Claim C8 as stated fails: the message \<open>Call me at 702-555-1234\<close> yields the fragment
  \<open>{phoneNumber: 7025551234}\<close>, which has no recognised key; merging it leaves the
  interaction count at 0.
\<close>

theorem merge_overwrites_counterexample:
  "extractInformationFromSMS (JStr ''Call me at 702-555-1234'')
     = [(''phoneNumber'', JStr ''7025551234'')]
   \<and> createOrUpdateProfileFromSMS [''p1'' \<mapsto> created_row ''+17025550100'']
        (JStr ''t1'') (JStr ''t2'') 50 ''p1'' [(''phoneNumber'', JStr ''7025551234'')]
     = Inr ((Some (created_row ''+17025550100''), 9),
            [''p1'' \<mapsto> (created_row ''+17025550100'')
                         (''data_quality_score'' := JNum 50,
                          ''verification_status'' := JStr ''unverified'',
                          ''last_interaction_date'' := JStr ''t2'',
                          ''profile_completion_percentage'' := JNum 9)])
   \<and> created_row ''+17025550100'' ''sms_conversation_count'' = JNum 0
   \<and> ((created_row ''+17025550100'')
         (''data_quality_score'' := JNum 50,
          ''verification_status'' := JStr ''unverified'',
          ''last_interaction_date'' := JStr ''t2'',
          ''profile_completion_percentage'' := JNum 9)) ''sms_conversation_count'' = JNum 0"
proof (intro conjI)
  show "extractInformationFromSMS (JStr ''Call me at 702-555-1234'')
     = [(''phoneNumber'', JStr ''7025551234'')]"
    by (simp add: extract_defs re_defs chr_defs)
  have u: "updateProfileData [''p1'' \<mapsto> created_row ''+17025550100''] (JStr ''t1'') ''p1''
             [(''phoneNumber'', JStr ''7025551234'')]
           = Inr (Some (created_row ''+17025550100''), [''p1'' \<mapsto> created_row ''+17025550100''])"
    by (simp add: updateProfileData_def fieldMapping_get_def fieldMapping_def
          objectPrototypeKeys_def)
  have c: "completion (created_row ''+17025550100'') = 9"
    by (simp add: completion_eq created_row_def new_row_def blank_row_def requiredFields_def
          importantFields_def optionalFields_def field_present_def trim_def is_space_def
          round_percent_def)
  from pipeline_result [OF u, of "JStr ''t2''" 50]
  show "createOrUpdateProfileFromSMS [''p1'' \<mapsto> created_row ''+17025550100'']
        (JStr ''t1'') (JStr ''t2'') 50 ''p1'' [(''phoneNumber'', JStr ''7025551234'')]
     = Inr ((Some (created_row ''+17025550100''), 9),
            [''p1'' \<mapsto> (created_row ''+17025550100'')
                         (''data_quality_score'' := JNum 50,
                          ''verification_status'' := JStr ''unverified'',
                          ''last_interaction_date'' := JStr ''t2'',
                          ''profile_completion_percentage'' := JNum 9)])"
    by (simp add: c)
  show "created_row ''+17025550100'' ''sms_conversation_count'' = JNum 0"
    by (simp add: created_row_def new_row_def)
  then show "((created_row ''+17025550100'')
         (''data_quality_score'' := JNum 50,
          ''verification_status'' := JStr ''unverified'',
          ''last_interaction_date'' := JStr ''t2'',
          ''profile_completion_percentage'' := JNum 9)) ''sms_conversation_count'' = JNum 0"
    by simp
qed

text \<open>
  Claim C8 on a fragment with one recognised and one unknown key.
\<close>

theorem merge_overwrites_witness:
  "[''p1'' \<mapsto> new_row] ''p1'' = Some new_row
   \<and> distinct (map fst [(''firstName'', JStr ''Ann''), (''note'', JStr ''hello'')])
   \<and> \<not> inherited_key [(''firstName'', JStr ''Ann''), (''note'', JStr ''hello'')]
   \<and> new_row ''sms_conversation_count'' = JNum 0
   \<and> (\<exists>r p. createOrUpdateProfileFromSMS [''p1'' \<mapsto> new_row] (JStr ''t1'') (JStr ''t2'') 50 ''p1''
                [(''firstName'', JStr ''Ann''), (''note'', JStr ''hello'')]
              = Inr ((Some p, completion r), [''p1'' \<mapsto> r])
          \<and> r ''first_name'' = JStr ''Ann''
          \<and> r ''last_name'' = JNull
          \<and> r ''sms_conversation_count'' = JNum 1
          \<and> r ''updated_at'' = JStr ''t1''
          \<and> r ''last_interaction_date'' = JStr ''t2'')"
proof -
  let ?f = "[(''firstName'', JStr ''Ann''), (''note'', JStr ''hello'')]"
  have h: "[''p1'' \<mapsto> new_row] ''p1'' = Some new_row" "distinct (map fst ?f)"
      "\<not> inherited_key ?f" "new_row ''sms_conversation_count'' = JNum 0"
    by (simp_all add: inherited_key_def objectPrototypeKeys_def new_row_def)
  have rec: "recognised ?f \<noteq> []"
    by (simp add: recognised_def fieldMapping_def)
  have w: "written ?f ''first_name'' = Some (JStr ''Ann'')" "written ?f ''last_name'' = None"
    by (simp_all add: written_def fieldMapping_def)
  have m: "''first_name'' \<notin> set derived_columns" "''last_name'' \<notin> set derived_columns"
    by (simp_all add: derived_columns_def)
  from merge_overwrites [of "[''p1'' \<mapsto> new_row]" "''p1''" new_row ?f 0
         "JStr ''t1''" "JStr ''t2''" 50] h
  obtain r p where r:
      "createOrUpdateProfileFromSMS [''p1'' \<mapsto> new_row] (JStr ''t1'') (JStr ''t2'') 50 ''p1'' ?f
         = Inr ((Some p, completion r), [''p1'' \<mapsto> r])"
      "\<forall>c. c \<notin> set derived_columns \<longrightarrow>
             r c = (case written ?f c of Some v \<Rightarrow> v | None \<Rightarrow> new_row c)"
      "r ''last_interaction_date'' = JStr ''t2''"
      "r ''sms_conversation_count'' = JNum (if recognised ?f = [] then 0 else 0 + 1)"
      "r ''updated_at'' = (if recognised ?f = [] then new_row ''updated_at'' else JStr ''t1'')"
    by auto
  from r(2) m w have "r ''first_name'' = JStr ''Ann''" "r ''last_name'' = JNull"
    by (auto simp: new_row_def blank_row_def)
  with r(1,3,4,5) rec h show ?thesis
    by (intro conjI exI [of _ r] exI [of _ p]) simp_all
qed

section \<open>Partial masking on examples\<close>




end
